theory Spec2Isabelle
  imports Main "HOL-Library.Sublist" "HOL-Library.AList" "HOL-Library.Multiset"
    "HOL-Library.Word"
begin

section \<open>Go values: errors, slices, formatting\<close>

text \<open>
  A non-nil Go \<open>error\<close> is represented by its message (what \<open>err.Error()\<close>
  returns); a possibly-nil error is an \<open>error option\<close>, with \<open>None\<close> for
  \<open>nil\<close>. A slice is a list option, \<open>None\<close> being the nil slice, so that
  "returns nil" and "returns an empty slice" stay apart.
\<close>

type_synonym error = string

type_synonym 'a slice = "'a list option"

definition elems :: "'a slice \<Rightarrow> 'a list" where
  "elems s = (case s of None \<Rightarrow> [] | Some xs \<Rightarrow> xs)"

definition len :: "'a slice \<Rightarrow> nat" where
  "len s = length (elems s)"

text \<open>\<open>append(s, x)\<close>: the result is never nil.\<close>

definition append1 :: "'a slice \<Rightarrow> 'a \<Rightarrow> 'a slice" where
  "append1 s x = Some (elems s @ [x])"

text \<open>\<open>append(s, m...)\<close>: appending nothing gives \<open>s\<close> back, nil included.\<close>

definition appendAll :: "'a slice \<Rightarrow> 'a slice \<Rightarrow> 'a slice" where
  "appendAll s m = (if len m = 0 then s else Some (elems s @ elems m))"

text \<open>A call either returns or panics (\<open>panic(msg)\<close>).\<close>

datatype 'a outcome = Returns 'a | Panics string

text \<open>\<open>strconv.Itoa\<close>, \<open>strings.Join\<close>, and the verbs of \<open>fmt.Sprintf\<close> the file uses.\<close>

fun digits :: "nat \<Rightarrow> string" where
  "digits n =
     (if n < 10 then [''0123456789'' ! n]
      else digits (n div 10) @ [''0123456789'' ! (n mod 10)])"

declare digits.simps [simp del]

definition Itoa :: "int \<Rightarrow> string" where
  "Itoa i = (if i < 0 then CHR ''-'' # digits (nat (- i)) else digits (nat i))"

fun Join :: "string list \<Rightarrow> string \<Rightarrow> string" where
  "Join [] sep = []"
| "Join [a] sep = a"
| "Join (a # b # r) sep = a @ sep @ Join (b # r) sep"

text \<open>\<open>%s\<close> applied to a \<open>[]string\<close> prints the elements in brackets, space separated.\<close>

definition Sprint_strings :: "string list \<Rightarrow> string" where
  "Sprint_strings ns = ''['' @ Join ns '' '' @ '']''"

section \<open>Data of the control package\<close>

text \<open>
  \<open>core.MetricType\<close> as the callers pass it: the two methods the file calls,
  \<open>Namespace()\<close> and \<open>Version()\<close>.
\<close>

record MetricType =
  Namespace :: "string list"
  Version :: int

text \<open>\<open>core.Metric\<close>, a collected value.\<close>

datatype Metric = Metric "string list" string

text \<open>
  \<open>ctypes.ConfigValue\<close> is opaque to this file;
  \<open>map[string]ctypes.ConfigValue\<close> is a table, and a \<open>cdata.ConfigDataNode\<close>
  wraps one (\<open>cdata.FromTable\<close>, \<open>cd.Table()\<close>).
\<close>

typedecl ConfigValue

type_synonym ConfigTable = "(string \<times> ConfigValue) list"

datatype ConfigDataNode = FromTable ConfigTable

fun Table :: "ConfigDataNode \<Rightarrow> ConfigTable" where
  "Table (FromTable t) = t"

text \<open>
  \<open>*metricType\<close>, the catalogue's record of a metric: the fields this file reads and
  writes (\<open>policy\<close>, \<open>config\<close>) and the subscription counter behind
  \<open>m.Subscribe()\<close>. \<open>policy\<close> is a handle of a config-policy node.
\<close>

record metricType =
  mt_Namespace :: "string list"
  mt_Version :: int
  policy :: nat
  config :: "ConfigDataNode option"
  subscriptions :: int

text \<open>
  Modelled from the spec: \<open>metricType.Subscribe\<close> is not in this file; the spec says
  that on a successful subscription "the subscription counter [is] incremented".
\<close>

definition mt_Subscribe :: "metricType \<Rightarrow> metricType" where
  "mt_Subscribe m = m\<lparr>subscriptions := subscriptions m + 1\<rparr>"

text \<open>
  \<open>*loadedPlugin\<close>, which also stands for the \<open>CatalogedPlugin\<close> interface it
  implements: \<open>Name()\<close>, \<open>Version()\<close>, and the handle of its
  \<open>ConfigPolicyTree\<close>. A possibly-nil pointer is a \<open>loadedPlugin option\<close>.
\<close>

record loadedPlugin =
  lp_Name :: string
  lp_Version :: int
  ConfigPolicyTree :: nat

text \<open>
  Modelled from the spec: \<open>loadedPlugin.Key\<close> is not in this file; the spec's plugin
  key is the "\<open>name:version\<close> identity string", which is also how
  \<open>PublishMetrics\<close> builds it.
\<close>

definition Key :: "loadedPlugin \<Rightarrow> string" where
  "Key lp = Join [lp_Name lp, Itoa (lp_Version lp)] '':''"

text \<open>The events of package \<open>control_event\<close> that the facade emits.\<close>

datatype event =
    LoadPluginEvent
  | UnloadPluginEvent
  | SwapPluginsEvent
  | MetricSubscriptionEvent "string list" int
  | PublisherSubscriptionEvent string int
  | MetricUnsubscriptionEvent "string list"

text \<open>
  The state behind the three collaborators (\<open>pluginManager\<close>,
  \<open>metricCatalog\<close>, \<open>pluginRunner\<close>): \<open>collab\<close> is whatever they keep
  internally (registry, catalogue index, pools); \<open>metricHeap\<close> holds the
  \<open>metricType\<close> objects that the pointers returned by the catalogue's \<open>Get\<close>
  address; \<open>hitCount\<close> is the \<open>hitCount\<close> field of the \<open>availablePlugin\<close>
  objects, by address, a Go \<open>int\<close> of 64 bits.
\<close>

record 'x world =
  collab :: 'x
  metricHeap :: "nat \<Rightarrow> metricType"
  hitCount :: "nat \<Rightarrow> 64 word"

text \<open>
  \<open>pluginControl\<close>. \<open>emitted\<close> lists the events handed to
  \<open>p.eventManager.Emit\<close>, oldest first.
\<close>

record 'x pluginControl =
  Started :: bool
  backend :: "'x world"
  emitted :: "event list"

section \<open>The collaborators\<close>

text \<open>
  Modelled from the spec: \<open>cpolicy.ProcessingErrors\<close> is not in this file; the
  spec's validator returns "a normalized config table or a structured error list".
  The object holds the error slice: \<open>HasErrors()\<close> says that it is not empty and
  \<open>Errors()\<close> returns it.
\<close>

datatype ProcessingErrors = ProcessingErrors "error slice"

fun Errors :: "ProcessingErrors \<Rightarrow> error slice" where
  "Errors (ProcessingErrors es) = es"

definition HasErrors :: "ProcessingErrors \<Rightarrow> bool" where
  "HasErrors pe = (len (Errors pe) > 0)"

text \<open>
  The interfaces \<open>managesPlugins\<close>, \<open>catalogsMetrics\<close> and
  \<open>runsPlugins\<close>, the config-policy nodes, the pools and the RPC clients are
  implemented outside this file: their methods are parameters. A Go result pair
  \<open>(v, err)\<close> is a pair of options. Pools, available plugins, policy nodes and
  clients are handles (addresses).
  \<^item> \<open>LoadPlugin path\<close>, \<open>UnloadPlugin pl\<close>: \<open>pluginManager\<close>; they change
    the collaborators' state. \<open>LoadPlugin\<close> is also given \<open>p.eventManager\<close>; what
    the plugin manager emits through it is its own and is not recorded here.
  \<^item> \<open>LoadedPlugins\<close>: the items that the cursor \<open>Next()\<close>/\<open>Item()\<close> of
    \<open>pluginManager.LoadedPlugins()\<close> yields, in order. The lock and the cursor of
    the table belong to the plugin manager and are not modelled.
  \<^item> \<open>Get\<close>, \<open>Unsubscribe\<close>, \<open>GetPlugin\<close>: \<open>metricCatalog\<close>.
  \<^item> \<open>Process node table\<close>: \<open>Process\<close> of a config-policy node;
    \<open>TreeGet tree ns\<close>: \<open>ConfigPolicyTree.Get\<close>.
  \<^item> \<open>GetPluginPool key\<close>: \<open>AvailablePlugins().Collectors.GetPluginPool\<close>;
    \<open>Count\<close> and \<open>SelectUsingStrategy\<close> (with \<open>p.strategy\<close>) of a pool;
    \<open>Sprint_pool\<close>: how \<open>%v\<close> prints a pool.
  \<^item> \<open>CollectorClient ap\<close>: the type assertion
    \<open>ap.Client.(client.PluginCollectorClient)\<close>, \<open>None\<close> when it fails.
  \<^item> \<open>client_CollectMetrics cli mts\<close>: the remote call \<open>cli.CollectMetrics(mt)\<close>.
\<close>

record 'x collaborators =
  LoadPlugin :: "string \<Rightarrow> 'x world \<Rightarrow> (loadedPlugin option \<times> error option) \<times> 'x world"
  UnloadPlugin :: "loadedPlugin option \<Rightarrow> 'x world \<Rightarrow> error option \<times> 'x world"
  LoadedPlugins :: "'x \<Rightarrow> loadedPlugin list"
  Get :: "string list \<Rightarrow> int \<Rightarrow> 'x world \<Rightarrow> nat option \<times> error option"
  Unsubscribe :: "string list \<Rightarrow> int \<Rightarrow> 'x world \<Rightarrow> error option \<times> 'x world"
  GetPlugin :: "string list \<Rightarrow> int \<Rightarrow> 'x \<Rightarrow> loadedPlugin option \<times> error option"
  Process :: "nat \<Rightarrow> ConfigTable \<Rightarrow> ConfigTable option \<times> ProcessingErrors option"
  TreeGet :: "nat \<Rightarrow> string list \<Rightarrow> nat"
  GetPluginPool :: "string \<Rightarrow> 'x \<Rightarrow> nat option"
  Count :: "nat \<Rightarrow> 'x \<Rightarrow> int"
  SelectUsingStrategy :: "nat \<Rightarrow> 'x \<Rightarrow> nat option \<times> error option"
  Sprint_pool :: "nat \<Rightarrow> 'x \<Rightarrow> string"
  CollectorClient :: "nat \<Rightarrow> 'x \<Rightarrow> nat option"
  client_CollectMetrics :: "nat \<Rightarrow> MetricType list \<Rightarrow> Metric slice \<times> error option"

section \<open>The facade: lifecycle and subscription\<close>

text \<open>
  Every operation takes the \<open>pluginControl\<close> and returns it updated; \<open>emitted\<close>
  grows by the event of each \<open>p.eventManager.Emit\<close> (deferred or not: a deferred
  call runs when the function returns, and does not run after a panic raised before
  the \<open>defer\<close> statement).
\<close>

definition Start :: "'x pluginControl \<Rightarrow> error option \<times> 'x pluginControl" where
  "Start p = (None, p\<lparr>Started := True\<rparr>)"

definition Stop :: "'x pluginControl \<Rightarrow> 'x pluginControl" where
  "Stop p = p\<lparr>Started := False\<rparr>"

definition Load ::
  "'x collaborators \<Rightarrow> string \<Rightarrow> 'x pluginControl \<Rightarrow> error option \<times> 'x pluginControl" where
  "Load env path p =
     (if \<not> Started p then (Some ''Must start Controller before calling Load()'', p)
      else
        (case LoadPlugin env path (backend p) of
           ((_, Some err), w) \<Rightarrow> (Some err, p\<lparr>backend := w\<rparr>)
         | ((_, None), w) \<Rightarrow>
             (None, p\<lparr>backend := w, emitted := emitted p @ [LoadPluginEvent]\<rparr>)))"

definition Unload ::
  "'x collaborators \<Rightarrow> loadedPlugin option \<Rightarrow> 'x pluginControl \<Rightarrow>
     error option \<times> 'x pluginControl" where
  "Unload env pl p =
     (case UnloadPlugin env pl (backend p) of
        (Some err, w) \<Rightarrow> (Some err, p\<lparr>backend := w\<rparr>)
      | (None, w) \<Rightarrow>
          (None, p\<lparr>backend := w, emitted := emitted p @ [UnloadPluginEvent]\<rparr>))"

definition SwapPlugins ::
  "'x collaborators \<Rightarrow> string \<Rightarrow> loadedPlugin option \<Rightarrow> 'x pluginControl \<Rightarrow>
     error option \<times> 'x pluginControl" where
  "SwapPlugins env inPath out p =
     (case LoadPlugin env inPath (backend p) of
        ((_, Some err), w1) \<Rightarrow> (Some err, p\<lparr>backend := w1\<rparr>)
      | ((lp, None), w1) \<Rightarrow>
          (case UnloadPlugin env out w1 of
             (Some err, w2) \<Rightarrow>
               (case UnloadPlugin env lp w2 of
                  (Some err2, w3) \<Rightarrow>
                    (Some (''failed to rollback after error'' @ err2 @ '' -- '' @ err),
                     p\<lparr>backend := w3\<rparr>)
                | (None, w3) \<Rightarrow> (Some err, p\<lparr>backend := w3\<rparr>))
           | (None, w2) \<Rightarrow>
               (None, p\<lparr>backend := w2, emitted := emitted p @ [SwapPluginsEvent]\<rparr>)))"

text \<open>
  \<open>SubscribeMetricType\<close> returns \<open>(core.MetricType, []error)\<close>: the pointer \<open>m\<close>
  or nil, and the error slice. \<open>*ncdTable\<close> panics on a nil table.
\<close>

definition SubscribeMetricType ::
  "'x collaborators \<Rightarrow> MetricType \<Rightarrow> ConfigDataNode \<Rightarrow> 'x pluginControl \<Rightarrow>
     (nat option \<times> error slice) outcome \<times> 'x pluginControl" where
  "SubscribeMetricType env mt cd p =
     (case Get env (Namespace mt) (Version mt) (backend p) of
        (_, Some err) \<Rightarrow> (Returns (None, append1 None err), p)
      | (None, None) \<Rightarrow>
          (Returns (None, append1 None
             (''no metric found cannot subscribe: ('' @ Sprint_strings (Namespace mt) @
              '') version('' @ Itoa (Version mt) @ '')'')), p)
      | (Some m, None) \<Rightarrow>
          (case Process env (policy (metricHeap (backend p) m)) (Table cd) of
             (ncdTable, errs) \<Rightarrow>
               if errs \<noteq> None \<and> HasErrors (the errs) then (Returns (None, Errors (the errs)), p)
               else
                 (case ncdTable of
                    None \<Rightarrow> (Panics ''runtime error: invalid memory address or nil pointer dereference'', p)
                  | Some t \<Rightarrow>
                      (let m1 = (metricHeap (backend p) m)\<lparr>config := Some (FromTable t)\<rparr>;
                           m2 = mt_Subscribe m1
                       in (Returns (Some m, None),
                           p\<lparr>backend := (backend p)\<lparr>metricHeap := (metricHeap (backend p))(m := m2)\<rparr>,
                             emitted := emitted p @
                               [MetricSubscriptionEvent (mt_Namespace m2) (mt_Version m2)]\<rparr>)))))"

text \<open>
  The loop of \<open>SubscribePublisher\<close> has no \<open>break\<close>: the last matching item wins.
\<close>

definition findLoaded :: "string \<Rightarrow> int \<Rightarrow> loadedPlugin list \<Rightarrow> loadedPlugin option" where
  "findLoaded name ver table =
     foldl (\<lambda>lp l. if lp_Name l = name \<and> lp_Version l = ver then Some l else lp) None table"

definition SubscribePublisher ::
  "'x collaborators \<Rightarrow> string \<Rightarrow> int \<Rightarrow> ConfigTable \<Rightarrow> 'x pluginControl \<Rightarrow>
     error slice \<times> 'x pluginControl" where
  "SubscribePublisher env name ver cfg p =
     (case findLoaded name ver (LoadedPlugins env (collab (backend p))) of
        None \<Rightarrow>
          (append1 None
             (''No loaded plugin found for publisher name: '' @ name @
              '' version: '' @ Itoa ver), p)
      | Some lp \<Rightarrow>
          (case Process env (TreeGet env (ConfigPolicyTree lp) ['''']) cfg of
             (_, errs) \<Rightarrow>
               if errs \<noteq> None \<and> HasErrors (the errs) then (Errors (the errs), p)
               else (None, p\<lparr>emitted := emitted p @ [PublisherSubscriptionEvent name ver]\<rparr>)))"

definition UnsubscribeMetricType ::
  "'x collaborators \<Rightarrow> MetricType \<Rightarrow> 'x pluginControl \<Rightarrow> unit outcome \<times> 'x pluginControl" where
  "UnsubscribeMetricType env mt p =
     (case Unsubscribe env (Namespace mt) (Version mt) (backend p) of
        (Some err, w) \<Rightarrow> (Panics err, p\<lparr>backend := w\<rparr>)
      | (None, w) \<Rightarrow>
          (Returns (), p\<lparr>backend := w,
             emitted := emitted p @ [MetricUnsubscriptionEvent (Namespace mt)]\<rparr>))"


section \<open>Collection: grouping and resolution\<close>

text \<open>
  \<open>pluginMetricTypes\<close>; its zero value has a nil plugin and a nil slice. The slice
  is only appended to and ranged over, so it is a plain list.
\<close>

record pluginMetricTypes =
  pmt_plugin :: "loadedPlugin option"
  pmt_metricTypes :: "MetricType list"

text \<open>
  \<open>groupMetricTypesByPlugin\<close>. The Go map \<open>pmts\<close> is an association list with
  distinct keys; \<open>pmts[key]\<close> of a missing key is the zero value. The function
  returns either \<open>(nil, err)\<close> or \<open>(pmts, nil)\<close>.
\<close>

fun groupLoop ::
  "'x collaborators \<Rightarrow> 'x \<Rightarrow> (string \<times> pluginMetricTypes) list \<Rightarrow> MetricType list \<Rightarrow>
     error + (string \<times> pluginMetricTypes) list" where
  "groupLoop env x pmts [] = Inr pmts"
| "groupLoop env x pmts (mt # rest) =
     (case GetPlugin env (Namespace mt) (- 1) x of
        (_, Some err) \<Rightarrow> Inl err
      | (None, None) \<Rightarrow> Inl (''Metric missing: '' @ Join (Namespace mt) ''/'')
      | (Some lp, None) \<Rightarrow>
          (let key = Key lp;
               pmt = (case map_of pmts key of
                        None \<Rightarrow> \<lparr>pmt_plugin = None, pmt_metricTypes = []\<rparr>
                      | Some v \<Rightarrow> v);
               pmt1 = pmt\<lparr>pmt_plugin := Some lp\<rparr>;
               pmt2 = pmt1\<lparr>pmt_metricTypes := pmt_metricTypes pmt1 @ [mt]\<rparr>
           in groupLoop env x (AList.update key pmt2 pmts) rest))"

definition groupMetricTypesByPlugin ::
  "'x collaborators \<Rightarrow> 'x \<Rightarrow> MetricType list \<Rightarrow> error + (string \<times> pluginMetricTypes) list" where
  "groupMetricTypesByPlugin env x metricTypes = groupLoop env x [] metricTypes"

definition getPool :: "'x collaborators \<Rightarrow> 'x \<Rightarrow> string \<Rightarrow> error + nat" where
  "getPool env x pluginKey =
     (case GetPluginPool env pluginKey x of
        None \<Rightarrow> Inl (''no available plugins for plugin type ('' @ pluginKey @ '')'')
      | Some pool \<Rightarrow>
          if Count env pool x = 0
          then Inl (''there is no availablePlugins in pool ('' @ pluginKey @ '')'')
          else Inr pool)"

definition getAvailablePlugin :: "'x collaborators \<Rightarrow> 'x \<Rightarrow> nat \<Rightarrow> error + nat" where
  "getAvailablePlugin env x pool =
     (case SelectUsingStrategy env pool x of
        (_, Some err) \<Rightarrow> Inl err
      | (None, None) \<Rightarrow> Inl (''no available plugin selected in pool '' @ Sprint_pool env pool x)
      | (Some ap, None) \<Rightarrow> Inr ap)"

text \<open>
  Lines 345 to 365 of the loop body of \<open>CollectMetrics\<close>: the pool, the available
  plugin and the collector client of one plugin key, or the error that the iteration
  appends to \<open>errs\<close> before it continues.
\<close>

definition resolve :: "'x collaborators \<Rightarrow> 'x \<Rightarrow> string \<Rightarrow> error + (nat \<times> nat)" where
  "resolve env x pluginKey =
     (case getPool env x pluginKey of
        Inl err \<Rightarrow> Inl err
      | Inr pool \<Rightarrow>
          (case getAvailablePlugin env x pool of
             Inl err \<Rightarrow> Inl err
           | Inr ap \<Rightarrow>
               (case CollectorClient env ap x of
                  None \<Rightarrow> Inl ''unable to cast client to PluginCollectorClient''
                | Some cli \<Rightarrow> Inr (ap, cli))))"

section \<open>Collection: the goroutines of \<open>CollectMetrics\<close>\<close>

text \<open>
  \<open>CollectMetrics\<close> runs the calling goroutine, one goroutine per dispatched group
  (line 370) and two collecting goroutines (lines 384 and 391). The model is the
  interleaving of their steps, one step per statement that reads or writes what
  another goroutine can see; a read or a write of a slice variable is one step.
  The collaborators are read from one snapshot \<open>x\<close> of their state.

  The calling goroutine is in the \<open>range\<close> loop over the map (with the entries it
  has not visited yet), at \<open>wg.Wait()\<close>, or has returned its two results.
\<close>

datatype main_pc =
    AtLoop "(string \<times> pluginMetricTypes) list"
  | AtWait
  | Returned "Metric slice" "error slice"

text \<open>
  A dispatched goroutine owns \<open>cli\<close>, its parameter \<open>mt\<close> and the \<open>err\<close> of its
  loop iteration (declared by \<open>:=\<close> at line 346, so each iteration has its own);
  \<open>metrics\<close> in its body is the named result of \<open>CollectMetrics\<close>, shared by all.
  \<^item> \<open>WCall\<close>: before line 371, \<open>metrics, err = cli.CollectMetrics(mt)\<close>;
  \<^item> \<open>WBranch err\<close>: at the \<open>if err != nil\<close> of line 372;
  \<^item> \<open>WSendError e\<close>, \<open>WSendMetrics m\<close>: blocked in \<open>cError <- err\<close> or
    \<open>cMetrics <- metrics\<close>, the operand already evaluated;
  \<^item> \<open>WExit\<close>: the value was received, the goroutine is over.
\<close>

datatype worker_pc =
    WCall
  | WBranch "error option"
  | WSendError error
  | WSendMetrics "Metric slice"
  | WExit

record worker =
  w_cli :: nat
  w_mt :: "MetricType list"
  w_pc :: worker_pc

text \<open>
  The goroutine of line 384: not started; waiting in \<open>range cMetrics\<close>; holding a
  received \<open>m\<close> before line 386; holding the value of \<open>append(metrics, m...)\<close> to
  store into \<open>metrics\<close>; before \<open>wg.Done()\<close>. The goroutine of line 391 likewise
  (nothing else writes \<open>errs\<close> while it runs, so its append is one step).
\<close>

datatype metrics_collector =
    MNotStarted
  | MReceive
  | MAppend "Metric slice"
  | MStore "Metric slice"
  | MDone

datatype errors_collector =
    ENotStarted
  | EReceive
  | EAppend error
  | EDone

text \<open>
  The variables the goroutines share: the named results \<open>metrics\<close> and \<open>errs\<close>,
  the counter of \<open>wg\<close>, and the \<open>hitCount\<close> fields (\<open>ap.hitCount++\<close> wraps).
  \<open>ap.lastHitTime = time.Now()\<close> reads the wall clock and is left out.
\<close>

record dispatch =
  main :: main_pc
  metrics :: "Metric slice"
  errs :: "error slice"
  wg :: int
  workers :: "worker list"
  mcol :: metrics_collector
  ecol :: errors_collector
  hits :: "nat \<Rightarrow> 64 word"

text \<open>
  One iteration of the loop (lines 343 to 382) for the entry \<open>(pluginKey, pmt)\<close>.
\<close>

definition iteration ::
  "'x collaborators \<Rightarrow> 'x \<Rightarrow> string \<times> pluginMetricTypes \<Rightarrow> dispatch \<Rightarrow> dispatch" where
  "iteration env x entry s =
     (case resolve env x (fst entry) of
        Inl err \<Rightarrow> s\<lparr>errs := append1 (errs s) err\<rparr>
      | Inr (ap, cli) \<Rightarrow>
          s\<lparr>wg := wg s + 1,
            workers := workers s @
              [\<lparr>w_cli = cli, w_mt = pmt_metricTypes (snd entry), w_pc = WCall\<rparr>],
            hits := (hits s)(ap := hits s ap + 1)\<rparr>)"

text \<open>
  The calling goroutine. Go leaves the order of \<open>range\<close> over a map open: the
  scheduler's number \<open>i\<close> picks the entry to visit among those left. After the loop
  the two collecting goroutines are started; \<open>wg.Wait()\<close> returns when the counter
  is zero, and lines 399 to 405 give the results.
\<close>

definition step_main :: "'x collaborators \<Rightarrow> 'x \<Rightarrow> nat \<Rightarrow> dispatch \<Rightarrow> dispatch option" where
  "step_main env x i s =
     (case main s of
        AtLoop pending \<Rightarrow>
          if pending = [] then Some (s\<lparr>main := AtWait, mcol := MReceive, ecol := EReceive\<rparr>)
          else if i < length pending
          then Some (iteration env x (pending ! i)
                 (s\<lparr>main := AtLoop (take i pending @ drop (Suc i) pending)\<rparr>))
          else None
      | AtWait \<Rightarrow>
          if wg s = 0
          then Some (s\<lparr>main := (if len (errs s) > 0 then Returned None (errs s)
                                 else Returned (metrics s) (errs s))\<rparr>)
          else None
      | Returned ms es \<Rightarrow> None)"

text \<open>
  The goroutine of line 370, number \<open>i\<close> in the order of dispatch. A send on an
  unbuffered channel completes when the collecting goroutine is at its receive.
\<close>

definition step_worker :: "'x collaborators \<Rightarrow> nat \<Rightarrow> dispatch \<Rightarrow> dispatch option" where
  "step_worker env i s =
     (if i < length (workers s) then
        (let w = workers s ! i in
         case w_pc w of
           WCall \<Rightarrow>
             (case client_CollectMetrics env (w_cli w) (w_mt w) of
                (ms, err) \<Rightarrow>
                  Some (s\<lparr>metrics := ms, workers := (workers s)[i := w\<lparr>w_pc := WBranch err\<rparr>]\<rparr>))
         | WBranch err \<Rightarrow>
             (case err of
                Some e \<Rightarrow> Some (s\<lparr>workers := (workers s)[i := w\<lparr>w_pc := WSendError e\<rparr>]\<rparr>)
              | None \<Rightarrow>
                  Some (s\<lparr>workers := (workers s)[i := w\<lparr>w_pc := WSendMetrics (metrics s)\<rparr>]\<rparr>))
         | WSendError e \<Rightarrow>
             if ecol s = EReceive
             then Some (s\<lparr>ecol := EAppend e, workers := (workers s)[i := w\<lparr>w_pc := WExit\<rparr>]\<rparr>)
             else None
         | WSendMetrics m \<Rightarrow>
             if mcol s = MReceive
             then Some (s\<lparr>mcol := MAppend m, workers := (workers s)[i := w\<lparr>w_pc := WExit\<rparr>]\<rparr>)
             else None
         | WExit \<Rightarrow> None)
      else None)"

definition step_mcol :: "dispatch \<Rightarrow> dispatch option" where
  "step_mcol s =
     (case mcol s of
        MAppend m \<Rightarrow> Some (s\<lparr>mcol := MStore (appendAll (metrics s) m)\<rparr>)
      | MStore v \<Rightarrow> Some (s\<lparr>metrics := v, mcol := MDone\<rparr>)
      | MDone \<Rightarrow> Some (s\<lparr>wg := wg s - 1, mcol := MReceive\<rparr>)
      | MReceive \<Rightarrow> None
      | MNotStarted \<Rightarrow> None)"

definition step_ecol :: "dispatch \<Rightarrow> dispatch option" where
  "step_ecol s =
     (case ecol s of
        EAppend e \<Rightarrow> Some (s\<lparr>errs := append1 (errs s) e, ecol := EDone\<rparr>)
      | EDone \<Rightarrow> Some (s\<lparr>wg := wg s - 1, ecol := EReceive\<rparr>)
      | EReceive \<Rightarrow> None
      | ENotStarted \<Rightarrow> None)"

text \<open>
  A schedule is the list of the goroutines that take the next step; a goroutine
  that cannot step (blocked or over) makes the schedule invalid.
\<close>

datatype thread = Main nat | Worker nat | MetricsCollector | ErrorsCollector

definition step :: "'x collaborators \<Rightarrow> 'x \<Rightarrow> thread \<Rightarrow> dispatch \<Rightarrow> dispatch option" where
  "step env x t s =
     (case t of
        Main i \<Rightarrow> step_main env x i s
      | Worker i \<Rightarrow> step_worker env i s
      | MetricsCollector \<Rightarrow> step_mcol s
      | ErrorsCollector \<Rightarrow> step_ecol s)"

fun run :: "'x collaborators \<Rightarrow> 'x \<Rightarrow> thread list \<Rightarrow> dispatch \<Rightarrow> dispatch option" where
  "run env x [] s = Some s"
| "run env x (t # ts) s =
     (case step env x t s of None \<Rightarrow> None | Some s' \<Rightarrow> run env x ts s')"

text \<open>
  Lines 332 to 340: a grouping error is appended to \<open>errs\<close> and the call returns
  at once; otherwise the loop starts with every entry of the map to visit.
\<close>

definition CollectMetrics_start ::
  "'x collaborators \<Rightarrow> MetricType list \<Rightarrow> 'x pluginControl \<Rightarrow> dispatch" where
  "CollectMetrics_start env metricTypes p =
     (case groupMetricTypesByPlugin env (collab (backend p)) metricTypes of
        Inl err \<Rightarrow>
          \<lparr>main = Returned None (append1 None err), metrics = None,
           errs = append1 None err, wg = 0, workers = [],
           mcol = MNotStarted, ecol = ENotStarted, hits = hitCount (backend p)\<rparr>
      | Inr pluginToMetricMap \<Rightarrow>
          \<lparr>main = AtLoop pluginToMetricMap, metrics = None, errs = None, wg = 0,
           workers = [], mcol = MNotStarted, ecol = ENotStarted,
           hits = hitCount (backend p)\<rparr>)"

text \<open>
  \<open>CollectMetrics\<close> under a schedule: the two results and the \<open>pluginControl\<close>
  with the hit counts updated, or \<open>None\<close> when the schedule is not an execution
  that ends with the return of the call. The \<open>deadline\<close> (an instant) is a
  parameter that the body never reads.
\<close>

definition CollectMetrics ::
  "'x collaborators \<Rightarrow> thread list \<Rightarrow> MetricType list \<Rightarrow> int \<Rightarrow> 'x pluginControl \<Rightarrow>
     ((Metric slice \<times> error slice) \<times> 'x pluginControl) option" where
  "CollectMetrics env schedule metricTypes deadline p =
     (case run env (collab (backend p)) schedule (CollectMetrics_start env metricTypes p) of
        None \<Rightarrow> None
      | Some s \<Rightarrow>
          (case main s of
             Returned ms es \<Rightarrow> Some ((ms, es), p\<lparr>backend := (backend p)\<lparr>hitCount := hits s\<rparr>\<rparr>)
           | AtLoop pending \<Rightarrow> None
           | AtWait \<Rightarrow> None))"

section \<open>What a call of \<open>CollectMetrics\<close> owes\<close>

text \<open>
  The error of the remote call of a dispatched group, the error (pool, selection,
  cast or remote call) of one entry of the map, and the errors of a whole call: the
  grouping error alone, or those of the entries.
\<close>

definition remote_error :: "'x collaborators \<Rightarrow> nat \<Rightarrow> MetricType list \<Rightarrow> error list" where
  "remote_error env cli mt =
     (case snd (client_CollectMetrics env cli mt) of None \<Rightarrow> [] | Some e \<Rightarrow> [e])"

definition entry_errors ::
  "'x collaborators \<Rightarrow> 'x \<Rightarrow> string \<times> pluginMetricTypes \<Rightarrow> error list" where
  "entry_errors env x entry =
     (case resolve env x (fst entry) of
        Inl err \<Rightarrow> [err]
      | Inr (ap, cli) \<Rightarrow> remote_error env cli (pmt_metricTypes (snd entry)))"

definition expected_errors :: "'x collaborators \<Rightarrow> 'x \<Rightarrow> MetricType list \<Rightarrow> error list" where
  "expected_errors env x metricTypes =
     (case groupMetricTypesByPlugin env x metricTypes of
        Inl err \<Rightarrow> [err]
      | Inr pmts \<Rightarrow> concat (map (entry_errors env x) pmts))"

text \<open>
  The errors of the loop alone, and the groups it dispatches (client and metric
  types), entry by entry.
\<close>

definition loop_errors ::
  "'x collaborators \<Rightarrow> 'x \<Rightarrow> (string \<times> pluginMetricTypes) list \<Rightarrow> error list" where
  "loop_errors env x pmts =
     concat (map (\<lambda>entry. case resolve env x (fst entry) of Inl err \<Rightarrow> [err] | Inr r \<Rightarrow> []) pmts)"

definition dispatched ::
  "'x collaborators \<Rightarrow> 'x \<Rightarrow> (string \<times> pluginMetricTypes) list \<Rightarrow> (nat \<times> MetricType list) list" where
  "dispatched env x pmts =
     concat (map (\<lambda>entry. case resolve env x (fst entry) of
                            Inl err \<Rightarrow> []
                          | Inr (ap, cli) \<Rightarrow> [(cli, pmt_metricTypes (snd entry))]) pmts)"

definition tasks :: "dispatch \<Rightarrow> (nat \<times> MetricType list) list" where
  "tasks s = map (\<lambda>w. (w_cli w, w_mt w)) (workers s)"

text \<open>
  The errors of a state: those in \<open>errs\<close>, those a goroutine holds or will get
  from its remote call, and those of the entries still to visit.
\<close>

definition worker_owes :: "'x collaborators \<Rightarrow> worker \<Rightarrow> error list" where
  "worker_owes env w =
     (case w_pc w of
        WCall \<Rightarrow> remote_error env (w_cli w) (w_mt w)
      | WBranch err \<Rightarrow> (case err of None \<Rightarrow> [] | Some e \<Rightarrow> [e])
      | WSendError e \<Rightarrow> [e]
      | WSendMetrics m \<Rightarrow> []
      | WExit \<Rightarrow> [])"

definition ecol_owes :: "errors_collector \<Rightarrow> error list" where
  "ecol_owes c = (case c of EAppend e \<Rightarrow> [e] | EDone \<Rightarrow> [] | EReceive \<Rightarrow> [] | ENotStarted \<Rightarrow> [])"

definition main_owes :: "'x collaborators \<Rightarrow> 'x \<Rightarrow> main_pc \<Rightarrow> error list" where
  "main_owes env x m =
     (case m of
        AtLoop pending \<Rightarrow> concat (map (entry_errors env x) pending)
      | AtWait \<Rightarrow> []
      | Returned ms es \<Rightarrow> [])"

definition owed :: "'x collaborators \<Rightarrow> 'x \<Rightarrow> dispatch \<Rightarrow> error multiset" where
  "owed env x s =
     mset (elems (errs s)) + mset (concat (map (worker_owes env) (workers s))) +
     mset (ecol_owes (ecol s)) + mset (main_owes env x (main s))"

text \<open>
  The groups of a state: the goroutines dispatched so far and the entries still to
  visit that will dispatch one.
\<close>

definition planned :: "'x collaborators \<Rightarrow> 'x \<Rightarrow> dispatch \<Rightarrow> (nat \<times> MetricType list) multiset" where
  "planned env x s =
     mset (tasks s) +
     (case main s of
        AtLoop pending \<Rightarrow> mset (dispatched env x pending)
      | AtWait \<Rightarrow> {#}
      | Returned ms es \<Rightarrow> {#})"

text \<open>
  The loop's own errors of a state: \<open>errs\<close> and those of the entries still to visit.
\<close>

definition loop_owed :: "'x collaborators \<Rightarrow> 'x \<Rightarrow> dispatch \<Rightarrow> error multiset" where
  "loop_owed env x s =
     mset (elems (errs s)) +
     (case main s of
        AtLoop pending \<Rightarrow> mset (loop_errors env x pending)
      | AtWait \<Rightarrow> {#}
      | Returned ms es \<Rightarrow> {#})"

text \<open>
  The counter of \<open>wg\<close> counts the values not yet collected: one per goroutine that
  is not over, and one per collecting goroutine that holds a value.
\<close>

definition busy :: "worker \<Rightarrow> int" where
  "busy w = (if w_pc w = WExit then 0 else 1)"

definition mcol_busy :: "metrics_collector \<Rightarrow> int" where
  "mcol_busy c = (if c = MReceive \<or> c = MNotStarted then 0 else 1)"

definition ecol_busy :: "errors_collector \<Rightarrow> int" where
  "ecol_busy c = (if c = EReceive \<or> c = ENotStarted then 0 else 1)"

definition started :: "dispatch \<Rightarrow> bool" where
  "started s =
     (case main s of
        AtLoop pending \<Rightarrow> mcol s = MNotStarted \<and> ecol s = ENotStarted
      | AtWait \<Rightarrow> mcol s \<noteq> MNotStarted \<and> ecol s \<noteq> ENotStarted
      | Returned ms es \<Rightarrow>
          wg s = 0 \<and> es = errs s \<and> ms = (if len (errs s) > 0 then None else metrics s))"

definition consistent :: "dispatch \<Rightarrow> bool" where
  "consistent s \<longleftrightarrow>
     wg s = sum_list (map busy (workers s)) + mcol_busy (mcol s) + ecol_busy (ecol s) \<and>
     started s \<and> errs s \<noteq> Some []"

text \<open>The number of steps a state has left, at most.\<close>

definition worker_rank :: "worker \<Rightarrow> nat" where
  "worker_rank w =
     (case w_pc w of
        WCall \<Rightarrow> 7
      | WBranch err \<Rightarrow> 6
      | WSendError e \<Rightarrow> 5
      | WSendMetrics m \<Rightarrow> 5
      | WExit \<Rightarrow> 0)"

definition rank :: "dispatch \<Rightarrow> nat" where
  "rank s =
     (case main s of AtLoop pending \<Rightarrow> 8 * length pending + 2 | AtWait \<Rightarrow> 1 | Returned ms es \<Rightarrow> 0) +
     sum_list (map worker_rank (workers s)) +
     (case mcol s of MAppend m \<Rightarrow> 3 | MStore v \<Rightarrow> 2 | MDone \<Rightarrow> 1 | MReceive \<Rightarrow> 0 | MNotStarted \<Rightarrow> 0) +
     (case ecol s of EAppend e \<Rightarrow> 2 | EDone \<Rightarrow> 1 | EReceive \<Rightarrow> 0 | ENotStarted \<Rightarrow> 0)"

text \<open>
  A group can be dispatched: the pool of its key exists and is not empty, the
  selection gives an instance without error, and the client of the instance is a
  collector client.
\<close>

definition usable :: "'x collaborators \<Rightarrow> 'x \<Rightarrow> string \<Rightarrow> bool" where
  "usable env x pluginKey =
     (case GetPluginPool env pluginKey x of
        None \<Rightarrow> False
      | Some pool \<Rightarrow>
          Count env pool x \<noteq> 0 \<and>
          (case SelectUsingStrategy env pool x of
             (_, Some err) \<Rightarrow> False
           | (None, None) \<Rightarrow> False
           | (Some ap, None) \<Rightarrow> CollectorClient env ap x \<noteq> None))"

text \<open>
  The owning-plugin lookup of a requested metric fails: \<open>GetPlugin\<close> returns an
  error, or no error and no plugin.
\<close>

definition lookup_fails :: "'x collaborators \<Rightarrow> 'x \<Rightarrow> MetricType \<Rightarrow> bool" where
  "lookup_fails env x mt =
     (case GetPlugin env (Namespace mt) (- 1) x of (lp, err) \<Rightarrow> err \<noteq> None \<or> lp = None)"

text \<open>
  A state in which nothing was dispatched or recorded: no goroutine of line 370,
  both results nil, the hit counts \<open>h\<close>, the collecting goroutines idle.
\<close>

definition quiet :: "(nat \<Rightarrow> 64 word) \<Rightarrow> dispatch \<Rightarrow> bool" where
  "quiet h s \<longleftrightarrow>
     workers s = [] \<and> metrics s = None \<and> errs s = None \<and> hits s = h \<and>
     (mcol s = MNotStarted \<or> mcol s = MReceive) \<and>
     (ecol s = ENotStarted \<or> ecol s = EReceive) \<and>
     (main s = AtLoop [] \<or> main s = AtWait \<or> main s = Returned None None)"

text \<open>
  The states of a call with one group, whose goroutine has the client \<open>cli\<close> and
  whose remote call returns \<open>ms\<close> without error. \<open>phase ms pc c m\<close> relates the
  place \<open>pc\<close> of that goroutine, the place \<open>c\<close> of the goroutine collecting the
  metrics and the value \<open>m\<close> of \<open>metrics\<close>: nil before the remote call, \<open>ms\<close>
  from the assignment of line 371 on, and \<open>append(ms, ms...)\<close> once line 386 has
  stored it.
\<close>

fun phase :: "Metric slice \<Rightarrow> worker_pc \<Rightarrow> metrics_collector \<Rightarrow> Metric slice \<Rightarrow> bool" where
  "phase ms WCall c m = (m = None \<and> (c = MNotStarted \<or> c = MReceive))"
| "phase ms (WBranch err) c m = (err = None \<and> m = ms \<and> (c = MNotStarted \<or> c = MReceive))"
| "phase ms (WSendError e) c m = False"
| "phase ms (WSendMetrics v) c m = (v = ms \<and> m = ms \<and> (c = MNotStarted \<or> c = MReceive))"
| "phase ms WExit c m =
     (case c of
        MAppend v \<Rightarrow> v = ms \<and> m = ms
      | MStore v \<Rightarrow> v = appendAll ms ms \<and> m = ms
      | MDone \<Rightarrow> m = appendAll ms ms
      | MReceive \<Rightarrow> m = appendAll ms ms
      | MNotStarted \<Rightarrow> False)"

definition one_worker :: "string \<times> pluginMetricTypes \<Rightarrow> nat \<Rightarrow> Metric slice \<Rightarrow> dispatch \<Rightarrow> bool" where
  "one_worker entry cli ms s =
     (case workers s of
        [w] \<Rightarrow>
          w_cli w = cli \<and> w_mt w = pmt_metricTypes (snd entry) \<and>
          phase ms (w_pc w) (mcol s) (metrics s)
      | _ \<Rightarrow> False)"

definition single :: "string \<times> pluginMetricTypes \<Rightarrow> nat \<Rightarrow> Metric slice \<Rightarrow> dispatch \<Rightarrow> bool" where
  "single entry cli ms s \<longleftrightarrow>
     errs s = None \<and> (ecol s = ENotStarted \<or> ecol s = EReceive) \<and>
     (case main s of
        AtLoop pending \<Rightarrow>
          mcol s = MNotStarted \<and>
          (pending = [entry] \<and> workers s = [] \<and> metrics s = None \<or>
           pending = [] \<and> one_worker entry cli ms s)
      | AtWait \<Rightarrow> one_worker entry cli ms s
      | Returned rs es \<Rightarrow> one_worker entry cli ms s)"

section \<open>A small instance of the collaborators\<close>

text \<open>
  A plugin manager whose state is the table of loaded plugins. Loading the path
  \<open>bad\<close> fails; a plugin of version 0 cannot be unloaded. The catalogue knows the
  metric \<open>cpu/temp\<close> (object 0, policy node 0, which accepts every table) and
  \<open>mem/free\<close> (object 1, policy node 1, which rejects every table); the owner of a
  metric is the loaded plugin named by the first segment of its namespace. The
  runner has a pool with one collector for \<open>cpu:1\<close>, an empty pool for \<open>mem:1\<close>, a
  pool for \<open>disk:1\<close> whose collector's remote call fails, a pool for \<open>net:1\<close>
  whose selection fails, a pool for \<open>tty:1\<close> whose selection gives no instance, a
  pool for \<open>pub:1\<close> whose instance has no collector client, and no pool for any
  other key.
\<close>

definition plug :: "string \<Rightarrow> int \<Rightarrow> loadedPlugin" where
  "plug name ver = \<lparr>lp_Name = name, lp_Version = ver, ConfigPolicyTree = (if name = ''strict'' then 1 else 0)\<rparr>"

definition demo :: "loadedPlugin list collaborators" where
  "demo =
     \<lparr>LoadPlugin = (\<lambda>path w.
        if path = ''bad'' then ((None, Some ''plugin failed to start''), w)
        else ((Some (plug path (if path = ''sticky'' then 0 else 1)), None),
              w\<lparr>collab := collab w @ [plug path (if path = ''sticky'' then 0 else 1)]\<rparr>)),
      UnloadPlugin = (\<lambda>pl w.
        case pl of
          None \<Rightarrow> (Some ''no plugin given'', w)
        | Some l \<Rightarrow>
            if l \<notin> set (collab w) then (Some ''plugin not found'', w)
            else if lp_Version l = 0 then (Some ''Plugin must be in a LoadedState'', w)
            else (None, w\<lparr>collab := removeAll l (collab w)\<rparr>)),
      LoadedPlugins = (\<lambda>x. x),
      Get = (\<lambda>ns ver w.
        if ns = [''cpu'', ''temp''] then (Some 0, None)
        else if ns = [''mem'', ''free''] then (Some 1, None)
        else (None, Some ''metric not found'')),
      Unsubscribe = (\<lambda>ns ver w.
        if ns \<noteq> [''cpu'', ''temp''] then (Some ''metric not found'', w)
        else if subscriptions (metricHeap w 0) \<le> 0 then (Some ''subscription count cannot be less than 0'', w)
        else (None, w\<lparr>metricHeap := (metricHeap w)
                (0 := (metricHeap w 0)\<lparr>subscriptions := subscriptions (metricHeap w 0) - 1\<rparr>)\<rparr>)),
      GetPlugin = (\<lambda>ns ver x.
        if ns = [] then (None, Some ''empty namespace'')
        else (find (\<lambda>l. lp_Name l = hd ns) x, None)),
      Process = (\<lambda>node t.
        if node = 0 then (Some t, None)
        else (None, Some (ProcessingErrors (Some [''required key missing''])))),
      TreeGet = (\<lambda>tree ns. tree),
      GetPluginPool = (\<lambda>key x.
        if key = ''cpu:1'' then Some 1
        else if key = ''mem:1'' then Some 2
        else if key = ''disk:1'' then Some 3
        else if key = ''net:1'' then Some 4
        else if key = ''tty:1'' then Some 5
        else if key = ''pub:1'' then Some 6
        else None),
      Count = (\<lambda>pool x. if pool = 2 then 0 else 1),
      SelectUsingStrategy = (\<lambda>pool x.
        if pool = 4 then (None, Some ''no healthy instance'')
        else if pool = 5 then (None, None)
        else (Some (10 * pool), None)),
      Sprint_pool = (\<lambda>pool x. ''&{}''),
      CollectorClient = (\<lambda>ap x. if ap = 60 then None else Some ap),
      client_CollectMetrics = (\<lambda>cli mts.
        if cli = 10 then (Some (map (\<lambda>mt. Metric (Namespace mt) ''42'') mts), None)
        else (None, Some ''rpc failed''))\<rparr>"

definition metric0 :: "string list \<Rightarrow> nat \<Rightarrow> metricType" where
  "metric0 ns node =
     \<lparr>mt_Namespace = ns, mt_Version = 1, policy = node, config = None, subscriptions = 0\<rparr>"

definition heap0 :: "nat \<Rightarrow> metricType" where
  "heap0 = (\<lambda>m. if m = 0 then metric0 [''cpu'', ''temp''] 0 else metric0 [''mem'', ''free''] 1)"

text \<open>A facade, started or not, over a table of loaded plugins.\<close>

definition ctl :: "bool \<Rightarrow> loadedPlugin list \<Rightarrow> loadedPlugin list pluginControl" where
  "ctl b table =
     \<lparr>Started = b,
      backend = \<lparr>collab = table, metricHeap = heap0, hitCount = (\<lambda>ap. 0)\<rparr>,
      emitted = []\<rparr>"

definition requested :: "string list \<Rightarrow> MetricType" where
  "requested ns = \<lparr>Namespace = ns, Version = - 1\<rparr>"


section \<open>Properties of the facade\<close>

lemma Key_plug: "Key (plug ''cpu'' 1) = ''cpu:1''"
  by (simp add: Key_def plug_def Itoa_def digits.simps)

lemma mt_Subscribe_fields [simp]:
  "mt_Namespace (mt_Subscribe m) = mt_Namespace m"
  "mt_Version (mt_Subscribe m) = mt_Version m"
  "config (mt_Subscribe m) = config m"
  "subscriptions (mt_Subscribe m) = subscriptions m + 1"
  by (simp_all add: mt_Subscribe_def)

lemma HasErrors_not_nil: "HasErrors pe \<Longrightarrow> Errors pe \<noteq> None"
  by (cases pe) (auto simp: HasErrors_def len_def elems_def split: option.splits)

subsection \<open>Events\<close>

lemma Load_emits:
  "emitted (snd (Load env path p)) =
     emitted p @ (if fst (Load env path p) = None then [LoadPluginEvent] else [])"
  by (simp add: Load_def split: prod.splits option.splits)

lemma Unload_emits:
  "emitted (snd (Unload env pl p)) =
     emitted p @ (if fst (Unload env pl p) = None then [UnloadPluginEvent] else [])"
  by (simp add: Unload_def split: prod.splits option.splits)

lemma SwapPlugins_emits:
  "emitted (snd (SwapPlugins env inPath out p)) =
     emitted p @ (if fst (SwapPlugins env inPath out p) = None then [SwapPluginsEvent] else [])"
  by (simp add: SwapPlugins_def split: prod.splits option.splits)

lemma SubscribeMetricType_emits:
  "emitted (snd (SubscribeMetricType env mt cd p)) =
     emitted p @
       (case fst (SubscribeMetricType env mt cd p) of
          Returns (Some m, es) \<Rightarrow>
            [MetricSubscriptionEvent (mt_Namespace (metricHeap (backend p) m))
               (mt_Version (metricHeap (backend p) m))]
        | Returns (None, es) \<Rightarrow> []
        | Panics msg \<Rightarrow> [])"
  by (simp add: SubscribeMetricType_def append1_def Let_def split: prod.splits option.splits)

lemma SubscribePublisher_emits:
  "emitted (snd (SubscribePublisher env name ver cfg p)) =
     emitted p @
       (if fst (SubscribePublisher env name ver cfg p) = None
        then [PublisherSubscriptionEvent name ver] else [])"
  by (auto simp: SubscribePublisher_def append1_def HasErrors_not_nil
           split: prod.splits option.splits)

lemma UnsubscribeMetricType_emits:
  "emitted (snd (UnsubscribeMetricType env mt p)) =
     emitted p @
       (case fst (UnsubscribeMetricType env mt p) of
          Returns u \<Rightarrow> [MetricUnsubscriptionEvent (Namespace mt)]
        | Panics msg \<Rightarrow> [])"
  by (simp add: UnsubscribeMetricType_def split: prod.splits option.splits)

text \<open>
  Claim C8. Each of \<open>Load\<close>, \<open>Unload\<close>, \<open>SwapPlugins\<close>, \<open>SubscribeMetricType\<close>,
  \<open>SubscribePublisher\<close> and \<open>UnsubscribeMetricType\<close> emits its event exactly when it
  succeeds: the events after the call are those before it, followed by the event of
  the operation when the call returns no error (for \<open>SubscribeMetricType\<close>: returns
  the metric; for \<open>UnsubscribeMetricType\<close>, which has no result: returns rather than
  panics), and by nothing otherwise.
\<close>

theorem event_iff_success:
  "emitted (snd (Load env path p)) =
     emitted p @ (if fst (Load env path p) = None then [LoadPluginEvent] else []) \<and>
   emitted (snd (Unload env pl p)) =
     emitted p @ (if fst (Unload env pl p) = None then [UnloadPluginEvent] else []) \<and>
   emitted (snd (SwapPlugins env inPath out p)) =
     emitted p @ (if fst (SwapPlugins env inPath out p) = None then [SwapPluginsEvent] else []) \<and>
   emitted (snd (SubscribeMetricType env mt cd p)) =
     emitted p @
       (case fst (SubscribeMetricType env mt cd p) of
          Returns (Some m, es) \<Rightarrow>
            [MetricSubscriptionEvent (mt_Namespace (metricHeap (backend p) m))
               (mt_Version (metricHeap (backend p) m))]
        | Returns (None, es) \<Rightarrow> []
        | Panics msg \<Rightarrow> []) \<and>
   emitted (snd (SubscribePublisher env name ver cfg p)) =
     emitted p @
       (if fst (SubscribePublisher env name ver cfg p) = None
        then [PublisherSubscriptionEvent name ver] else []) \<and>
   emitted (snd (UnsubscribeMetricType env mt' p)) =
     emitted p @
       (case fst (UnsubscribeMetricType env mt' p) of
          Returns u \<Rightarrow> [MetricUnsubscriptionEvent (Namespace mt')]
        | Panics msg \<Rightarrow> [])"
  using Load_emits [of env path p] Unload_emits [of env pl p]
    SwapPlugins_emits [of env inPath out p] SubscribeMetricType_emits [of env mt cd p]
    SubscribePublisher_emits [of env name ver cfg p] UnsubscribeMetricType_emits [of env mt' p]
  by blast

lemma ctl_fields [simp]:
  "Started (ctl b table) = b"
  "emitted (ctl b table) = []"
  "collab (backend (ctl b table)) = table"
  "metricHeap (backend (ctl b table)) = heap0"
  by (simp_all add: ctl_def)

lemma demo_Load_bad: "fst (Load demo ''bad'' (ctl True [])) = Some ''plugin failed to start''"
  by (simp add: Load_def demo_def ctl_def)

lemma demo_Load_good: "fst (Load demo ''cpu'' (ctl True [])) = None"
  by (simp add: Load_def demo_def ctl_def)

lemma demo_Unsubscribe_panics:
  "fst (UnsubscribeMetricType demo (requested [''cpu'', ''temp'']) (ctl True [])) =
     Panics ''subscription count cannot be less than 0''"
  by (simp add: UnsubscribeMetricType_def demo_def ctl_def requested_def heap0_def metric0_def)

theorem event_iff_success_witness:
  "emitted (snd (Load demo ''bad'' (ctl True []))) = [] \<and>
   emitted (snd (Load demo ''cpu'' (ctl True []))) = [LoadPluginEvent] \<and>
   emitted (snd (UnsubscribeMetricType demo (requested [''cpu'', ''temp'']) (ctl True []))) = []"
  using event_iff_success [of demo "''bad''" "ctl True []"]
    event_iff_success [of demo "''cpu''" "ctl True []"]
    event_iff_success [of demo _ "ctl True []" _ _ _ _ _ _ _ _ "requested [''cpu'', ''temp'']"]
  by (simp add: demo_Load_bad demo_Load_good demo_Unsubscribe_panics)

subsection \<open>Publisher subscription\<close>

text \<open>
  Claim C9. \<open>SubscribePublisher\<close> changes nothing but the list of emitted events:
  the state of the collaborators (registry, catalogue, metric objects and so every
  subscription counter) and the started flag are the same after the call as before,
  whether it succeeds or fails.
\<close>

theorem SubscribePublisher_frame:
  "backend (snd (SubscribePublisher env name ver cfg p)) = backend p \<and>
   Started (snd (SubscribePublisher env name ver cfg p)) = Started p \<and>
   (\<forall>m. subscriptions (metricHeap (backend (snd (SubscribePublisher env name ver cfg p))) m) =
        subscriptions (metricHeap (backend p) m))"
  by (simp add: SubscribePublisher_def split: prod.splits option.splits)

theorem SubscribePublisher_frame_witness:
  "fst (SubscribePublisher demo ''pub'' 1 [] (ctl True [plug ''pub'' 1])) = None \<and>
   backend (snd (SubscribePublisher demo ''pub'' 1 [] (ctl True [plug ''pub'' 1]))) =
     backend (ctl True [plug ''pub'' 1]) \<and>
   subscriptions (metricHeap
     (backend (snd (SubscribePublisher demo ''pub'' 1 [] (ctl True [plug ''pub'' 1])))) 0) = 0"
proof -
  have "fst (SubscribePublisher demo ''pub'' 1 [] (ctl True [plug ''pub'' 1])) = None"
    by (simp add: SubscribePublisher_def findLoaded_def demo_def ctl_def plug_def)
  moreover have "subscriptions (metricHeap (backend (ctl True [plug ''pub'' 1])) 0) = 0"
    by (simp add: ctl_def heap0_def metric0_def)
  ultimately show ?thesis
    using SubscribePublisher_frame [of demo "''pub''" 1 "[]" "ctl True [plug ''pub'' 1]"]
    by simp
qed

subsection \<open>Metric subscription\<close>

lemma subscribe_cases:
  "(\<forall>m tbl pe.
      Get env (Namespace mt) (Version mt) (backend p) = (Some m, None) \<and>
      Process env (policy (metricHeap (backend p) m)) (Table cd) = (tbl, Some pe) \<and>
      HasErrors pe \<longrightarrow>
      SubscribeMetricType env mt cd p = (Returns (None, Errors pe), p)) \<and>
   (snd (SubscribeMetricType env mt cd p) = p \<or>
    (\<exists>m tbl errs.
       Get env (Namespace mt) (Version mt) (backend p) = (Some m, None) \<and>
       Process env (policy (metricHeap (backend p) m)) (Table cd) = (Some tbl, errs) \<and>
       (errs = None \<or> \<not> HasErrors (the errs)) \<and>
       fst (SubscribeMetricType env mt cd p) = Returns (Some m, None) \<and>
       config (metricHeap (backend (snd (SubscribeMetricType env mt cd p))) m) =
         Some (FromTable tbl) \<and>
       subscriptions (metricHeap (backend (snd (SubscribeMetricType env mt cd p))) m) =
         subscriptions (metricHeap (backend p) m) + 1))"
proof (intro conjI allI impI)
  fix m tbl pe
  assume "Get env (Namespace mt) (Version mt) (backend p) = (Some m, None) \<and>
      Process env (policy (metricHeap (backend p) m)) (Table cd) = (tbl, Some pe) \<and>
      HasErrors pe"
  then show "SubscribeMetricType env mt cd p = (Returns (None, Errors pe), p)"
    by (simp add: SubscribeMetricType_def)
next
  obtain r e where get: "Get env (Namespace mt) (Version mt) (backend p) = (r, e)"
    by (cases "Get env (Namespace mt) (Version mt) (backend p)")
  show "snd (SubscribeMetricType env mt cd p) = p \<or>
    (\<exists>m tbl errs.
       Get env (Namespace mt) (Version mt) (backend p) = (Some m, None) \<and>
       Process env (policy (metricHeap (backend p) m)) (Table cd) = (Some tbl, errs) \<and>
       (errs = None \<or> \<not> HasErrors (the errs)) \<and>
       fst (SubscribeMetricType env mt cd p) = Returns (Some m, None) \<and>
       config (metricHeap (backend (snd (SubscribeMetricType env mt cd p))) m) =
         Some (FromTable tbl) \<and>
       subscriptions (metricHeap (backend (snd (SubscribeMetricType env mt cd p))) m) =
         subscriptions (metricHeap (backend p) m) + 1)"
  proof (cases "\<exists>m. r = Some m \<and> e = None")
    case False
    then have "snd (SubscribeMetricType env mt cd p) = p"
      using get by (cases r; cases e) (simp_all add: SubscribeMetricType_def)
    then show ?thesis ..
  next
    case True
    then obtain m where m: "r = Some m" "e = None" by blast
    obtain tbl errs where
      proc: "Process env (policy (metricHeap (backend p) m)) (Table cd) = (tbl, errs)"
      by (cases "Process env (policy (metricHeap (backend p) m)) (Table cd)")
    show ?thesis
    proof (cases "(errs \<noteq> None \<and> HasErrors (the errs)) \<or> tbl = None")
      case True
      then have "snd (SubscribeMetricType env mt cd p) = p"
        using get m proc by (auto simp: SubscribeMetricType_def)
      then show ?thesis ..
    next
      case False
      then obtain t where t: "tbl = Some t" and ok: "errs = None \<or> \<not> HasErrors (the errs)"
        by auto
      have "fst (SubscribeMetricType env mt cd p) = Returns (Some m, None) \<and>
            config (metricHeap (backend (snd (SubscribeMetricType env mt cd p))) m) =
              Some (FromTable t) \<and>
            subscriptions (metricHeap (backend (snd (SubscribeMetricType env mt cd p))) m) =
              subscriptions (metricHeap (backend p) m) + 1"
        using get m proc t ok by (auto simp: SubscribeMetricType_def Let_def)
      then show ?thesis
        using get m proc t ok by blast
    qed
  qed
qed

lemma subscribe_commits:
  "(\<forall>m tbl errs.
      Get env (Namespace mt) (Version mt) (backend p) = (Some m, None) \<and>
      Process env (policy (metricHeap (backend p) m)) (Table cd) = (Some tbl, errs) \<and>
      (errs = None \<or> \<not> HasErrors (the errs)) \<longrightarrow>
      fst (SubscribeMetricType env mt cd p) = Returns (Some m, None) \<and>
      config (metricHeap (backend (snd (SubscribeMetricType env mt cd p))) m) =
        Some (FromTable tbl) \<and>
      subscriptions (metricHeap (backend (snd (SubscribeMetricType env mt cd p))) m) =
        subscriptions (metricHeap (backend p) m) + 1)"
  by (auto simp: SubscribeMetricType_def Let_def)

text \<open>
  Claim C5. When the policy's validation of the supplied config data has errors,
  \<open>SubscribeMetricType\<close> returns nil with the list of validation errors and the
  whole state, so the metric's config and counter, is unchanged. In every call,
  either the state is unchanged, or the validation succeeded, the normalized table
  is the metric's config and its subscription counter is one more than before. And
  when the metric is found and the validation gives a table and no error, the call
  returns the metric, with the table as its config and its counter one more than
  before.
\<close>

theorem SubscribeMetricType_all_or_nothing:
  "(\<forall>m tbl pe.
      Get env (Namespace mt) (Version mt) (backend p) = (Some m, None) \<and>
      Process env (policy (metricHeap (backend p) m)) (Table cd) = (tbl, Some pe) \<and>
      HasErrors pe \<longrightarrow>
      SubscribeMetricType env mt cd p = (Returns (None, Errors pe), p)) \<and>
   (snd (SubscribeMetricType env mt cd p) = p \<or>
    (\<exists>m tbl errs.
       Get env (Namespace mt) (Version mt) (backend p) = (Some m, None) \<and>
       Process env (policy (metricHeap (backend p) m)) (Table cd) = (Some tbl, errs) \<and>
       (errs = None \<or> \<not> HasErrors (the errs)) \<and>
       fst (SubscribeMetricType env mt cd p) = Returns (Some m, None) \<and>
       config (metricHeap (backend (snd (SubscribeMetricType env mt cd p))) m) =
         Some (FromTable tbl) \<and>
       subscriptions (metricHeap (backend (snd (SubscribeMetricType env mt cd p))) m) =
         subscriptions (metricHeap (backend p) m) + 1)) \<and>
   (\<forall>m tbl errs.
      Get env (Namespace mt) (Version mt) (backend p) = (Some m, None) \<and>
      Process env (policy (metricHeap (backend p) m)) (Table cd) = (Some tbl, errs) \<and>
      (errs = None \<or> \<not> HasErrors (the errs)) \<longrightarrow>
      fst (SubscribeMetricType env mt cd p) = Returns (Some m, None) \<and>
      config (metricHeap (backend (snd (SubscribeMetricType env mt cd p))) m) =
        Some (FromTable tbl) \<and>
      subscriptions (metricHeap (backend (snd (SubscribeMetricType env mt cd p))) m) =
        subscriptions (metricHeap (backend p) m) + 1)"
proof -
  note ab = subscribe_cases [of env mt p cd]
  show ?thesis
    by (rule conjI [OF conjunct1 [OF ab] conjI [OF conjunct2 [OF ab] subscribe_commits]])
qed

lemma demo_subscribe_ok:
  "fst (SubscribeMetricType demo (requested [''cpu'', ''temp'']) (FromTable []) (ctl True [])) =
     Returns (Some 0, None)"
  by (simp add: SubscribeMetricType_def demo_def ctl_def requested_def heap0_def metric0_def)

lemma demo_subscribe_changes:
  "snd (SubscribeMetricType demo (requested [''cpu'', ''temp'']) (FromTable []) (ctl True [])) \<noteq>
     ctl True []"
proof
  assume "snd (SubscribeMetricType demo (requested [''cpu'', ''temp'']) (FromTable [])
            (ctl True [])) = ctl True []"
  then have "emitted (snd (SubscribeMetricType demo (requested [''cpu'', ''temp''])
                (FromTable []) (ctl True []))) = emitted (ctl True [])"
    by simp
  then show False
    by (simp add: SubscribeMetricType_emits demo_subscribe_ok)
qed

theorem SubscribeMetricType_all_or_nothing_witness:
  "SubscribeMetricType demo (requested [''mem'', ''free'']) (FromTable []) (ctl True []) =
     (Returns (None, Some [''required key missing'']), ctl True []) \<and>
   subscriptions (metricHeap (backend (snd
     (SubscribeMetricType demo (requested [''cpu'', ''temp'']) (FromTable []) (ctl True [])))) 0) = 1"
proof -
  let ?mem = "requested [''mem'', ''free'']"
  let ?cpu = "requested [''cpu'', ''temp'']"
  have get: "Get demo (Namespace ?mem) (Version ?mem) (backend (ctl True [])) = (Some 1, None)"
    by (simp add: demo_def requested_def)
  have proc: "Process demo (policy (metricHeap (backend (ctl True [])) 1)) (Table (FromTable [])) =
               (None, Some (ProcessingErrors (Some [''required key missing''])))"
    by (simp add: demo_def ctl_def heap0_def metric0_def)
  have has: "HasErrors (ProcessingErrors (Some [''required key missing'']))"
    by (simp add: HasErrors_def len_def elems_def)
  note fails = SubscribeMetricType_all_or_nothing [of demo ?mem "ctl True []" "FromTable []",
      THEN conjunct1, THEN spec, THEN spec, THEN spec, THEN mp, OF conjI [OF get conjI [OF proc has]]]
  have first: "SubscribeMetricType demo ?mem (FromTable []) (ctl True []) =
     (Returns (None, Some [''required key missing'']), ctl True [])"
    using fails by simp
  have get0: "Get demo (Namespace ?cpu) (Version ?cpu) (backend (ctl True [])) = (Some 0, None)"
    by (simp add: demo_def requested_def)
  have proc0: "Process demo (policy (metricHeap (backend (ctl True [])) 0)) (Table (FromTable [])) =
                (Some [], None)"
    by (simp add: demo_def ctl_def heap0_def metric0_def)
  have ok: "None = None \<or> \<not> HasErrors (the None)"
    by simp
  note commits = SubscribeMetricType_all_or_nothing [of demo ?cpu "ctl True []" "FromTable []",
      THEN conjunct2, THEN conjunct2, THEN spec, THEN spec, THEN spec, THEN mp,
      OF conjI [OF get0 conjI [OF proc0 ok]]]
  have "subscriptions (metricHeap (backend (ctl True [])) 0) = 0"
    by (simp add: ctl_def heap0_def metric0_def)
  then have second: "subscriptions (metricHeap (backend (snd
     (SubscribeMetricType demo ?cpu (FromTable []) (ctl True [])))) 0) = 1"
    using commits by simp
  show ?thesis
    using first second by simp
qed

subsection \<open>Swapping plugins\<close>




subsection \<open>The started state\<close>

text \<open>
  Claim C2, as the code has it. \<open>Load\<close>, called while the facade is not started,
  returns the error \<open>Must start Controller before calling Load()\<close> and changes
  nothing. \<open>SubscribeMetricType\<close>, \<open>UnsubscribeMetricType\<close> and \<open>SubscribePublisher\<close>
  never read the started flag: with the flag set to any value they return the same
  result and make the same changes.
\<close>

theorem started_guard:
  "(\<not> Started p \<longrightarrow>
      Load env path p = (Some ''Must start Controller before calling Load()'', p)) \<and>
   SubscribeMetricType env mt cd (p\<lparr>Started := b\<rparr>) =
     (fst (SubscribeMetricType env mt cd p),
      (snd (SubscribeMetricType env mt cd p))\<lparr>Started := b\<rparr>) \<and>
   UnsubscribeMetricType env mt' (p\<lparr>Started := b\<rparr>) =
     (fst (UnsubscribeMetricType env mt' p),
      (snd (UnsubscribeMetricType env mt' p))\<lparr>Started := b\<rparr>) \<and>
   SubscribePublisher env name ver cfg (p\<lparr>Started := b\<rparr>) =
     (fst (SubscribePublisher env name ver cfg p),
      (snd (SubscribePublisher env name ver cfg p))\<lparr>Started := b\<rparr>)"
proof (intro conjI impI)
  assume "\<not> Started p"
  then show "Load env path p = (Some ''Must start Controller before calling Load()'', p)"
    by (simp add: Load_def)
next
  show "SubscribeMetricType env mt cd (p\<lparr>Started := b\<rparr>) =
     (fst (SubscribeMetricType env mt cd p),
      (snd (SubscribeMetricType env mt cd p))\<lparr>Started := b\<rparr>)"
    by (auto simp: SubscribeMetricType_def Let_def split: prod.splits option.splits)
next
  show "UnsubscribeMetricType env mt' (p\<lparr>Started := b\<rparr>) =
     (fst (UnsubscribeMetricType env mt' p),
      (snd (UnsubscribeMetricType env mt' p))\<lparr>Started := b\<rparr>)"
    by (simp add: UnsubscribeMetricType_def split: prod.splits option.splits)
next
  show "SubscribePublisher env name ver cfg (p\<lparr>Started := b\<rparr>) =
     (fst (SubscribePublisher env name ver cfg p),
      (snd (SubscribePublisher env name ver cfg p))\<lparr>Started := b\<rparr>)"
    by (simp add: SubscribePublisher_def split: prod.splits option.splits)
qed

theorem started_guard_witness:
  "Load demo ''cpu'' (ctl False []) =
     (Some ''Must start Controller before calling Load()'', ctl False [])"
  using started_guard [of "ctl False []" demo "''cpu''"] by simp

text \<open>
  The claim as the spec states it fails: on a facade that is not started,
  \<open>SubscribePublisher\<close> succeeds and emits its event, \<open>SubscribeMetricType\<close>
  succeeds and increments the counter, and \<open>Unload\<close> succeeds and removes the plugin.
\<close>

theorem not_started_counterexample:
  "Started (ctl False [plug ''pub'' 1]) = False \<and>
   SubscribePublisher demo ''pub'' 1 [] (ctl False [plug ''pub'' 1]) =
     (None, (ctl False [plug ''pub'' 1])\<lparr>emitted := [PublisherSubscriptionEvent ''pub'' 1]\<rparr>) \<and>
   fst (SubscribeMetricType demo (requested [''cpu'', ''temp'']) (FromTable [])
          (ctl False [plug ''pub'' 1])) = Returns (Some 0, None) \<and>
   subscriptions (metricHeap (backend (ctl False [plug ''pub'' 1])) 0) = 0 \<and>
   subscriptions (metricHeap (backend (snd (SubscribeMetricType demo (requested [''cpu'', ''temp''])
     (FromTable []) (ctl False [plug ''pub'' 1])))) 0) = 1 \<and>
   fst (Unload demo (Some (plug ''pub'' 1)) (ctl False [plug ''pub'' 1])) = None \<and>
   collab (backend (snd (Unload demo (Some (plug ''pub'' 1)) (ctl False [plug ''pub'' 1])))) = []"
  by (simp add: SubscribePublisher_def SubscribeMetricType_def Unload_def findLoaded_def
        demo_def ctl_def plug_def requested_def heap0_def metric0_def mt_Subscribe_def)

section \<open>Properties of the collection\<close>

subsection \<open>Sums over the goroutines\<close>

lemma sum_list_map_update:
  fixes f :: "'a \<Rightarrow> 'b::comm_monoid_add"
  shows "i < length xs \<Longrightarrow>
    sum_list (map f (xs[i := y])) + f (xs ! i) = sum_list (map f xs) + f y"
proof (induction xs arbitrary: i)
  case Nil
  then show ?case by simp
next
  case (Cons a xs)
  show ?case
  proof (cases i)
    case 0
    then show ?thesis by (simp add: ac_simps)
  next
    case (Suc j)
    then have "j < length xs" using Cons.prems by simp
    from Cons.IH [OF this] show ?thesis
      using Suc by (simp add: ac_simps)
  qed
qed

lemma mset_concat_update:
  "i < length xs \<Longrightarrow>
     mset (concat (map g (xs[i := y]))) + mset (g (xs ! i)) =
     mset (concat (map g xs)) + mset (g y)"
  using sum_list_map_update [of i xs "\<lambda>x. mset (g x)" y]
  by (simp add: mset_concat comp_def)

lemma mset_concat_remove:
  assumes "i < length xs"
  shows "mset (concat (map g xs)) =
     mset (g (xs ! i)) + mset (concat (map g (take i xs @ drop (Suc i) xs)))"
proof -
  have "xs = take i xs @ xs ! i # drop (Suc i) xs"
    using assms by (rule id_take_nth_drop)
  then have "concat (map g xs) = concat (map g (take i xs @ xs ! i # drop (Suc i) xs))"
    by simp
  then show ?thesis by simp
qed

subsection \<open>The invariant\<close>

lemma elems_append1 [simp]: "elems (append1 s e) = elems s @ [e]"
  by (simp add: append1_def elems_def)

lemma append1_not_empty [simp]: "append1 s e \<noteq> Some []" "append1 s e \<noteq> None"
  by (simp_all add: append1_def)

lemma busy_nonneg: "0 \<le> sum_list (map busy ws)"
  by (induction ws) (auto simp: busy_def)

lemma busy_zero:
  "sum_list (map busy ws) = 0 \<Longrightarrow> w \<in> set ws \<Longrightarrow> w_pc w = WExit"
proof (induction ws)
  case Nil
  then show ?case by simp
next
  case (Cons a ws)
  have "0 \<le> busy a" "0 \<le> sum_list (map busy ws)"
    by (simp_all add: busy_def busy_nonneg)
  then have "busy a = 0" "sum_list (map busy ws) = 0"
    using Cons.prems(1) by auto
  then show ?case
    using Cons by (auto simp: busy_def split: if_splits)
qed

lemma idle_when_zero:
  assumes "consistent s" and "wg s = 0"
  shows "(\<forall>w \<in> set (workers s). w_pc w = WExit) \<and> mcol_busy (mcol s) = 0 \<and> ecol_busy (ecol s) = 0"
proof -
  have "0 \<le> sum_list (map busy (workers s))" "0 \<le> mcol_busy (mcol s)" "0 \<le> ecol_busy (ecol s)"
    by (simp_all add: busy_nonneg mcol_busy_def ecol_busy_def)
  moreover have "sum_list (map busy (workers s)) + mcol_busy (mcol s) + ecol_busy (ecol s) = 0"
    using assms by (simp add: consistent_def)
  ultimately have "sum_list (map busy (workers s)) = 0 \<and> mcol_busy (mcol s) = 0 \<and>
      ecol_busy (ecol s) = 0"
    by linarith
  then show ?thesis
    using busy_zero by blast
qed

lemma returned_wg: "consistent s \<Longrightarrow> main s = Returned ms es \<Longrightarrow> wg s = 0"
  by (simp add: consistent_def started_def)

lemma returned_no_step:
  assumes "consistent s" and "main s = Returned ms es"
  shows "step env x t s = None"
proof -
  have idle: "(\<forall>w \<in> set (workers s). w_pc w = WExit) \<and> mcol_busy (mcol s) = 0 \<and>
      ecol_busy (ecol s) = 0"
    using assms idle_when_zero returned_wg by blast
  show ?thesis
  proof (cases t)
    case (Main i)
    then show ?thesis using assms by (simp add: step_def step_main_def)
  next
    case (Worker i)
    then show ?thesis
      using idle by (auto simp: step_def step_worker_def Let_def)
  next
    case MetricsCollector
    then show ?thesis
      using idle by (auto simp: step_def step_mcol_def mcol_busy_def split: metrics_collector.splits if_splits)
  next
    case ErrorsCollector
    then show ?thesis
      using idle by (auto simp: step_def step_ecol_def ecol_busy_def split: errors_collector.splits if_splits)
  qed
qed

lemma iteration_inv:
  assumes "consistent (s\<lparr>main := AtLoop rest\<rparr>)"
  shows "consistent (iteration env x entry (s\<lparr>main := AtLoop rest\<rparr>))"
  using assms
  by (auto simp: iteration_def consistent_def started_def busy_def split: sum.splits prod.splits)

lemma step_main_inv:
  assumes "step_main env x i s = Some s'" and "consistent s"
  shows "consistent s'"
proof (cases "main s")
  case (AtLoop pending)
  show ?thesis
  proof (cases "pending = []")
    case True
    then show ?thesis
      using assms AtLoop
      by (auto simp: step_main_def consistent_def started_def mcol_busy_def ecol_busy_def)
  next
    case False
    then have s': "s' = iteration env x (pending ! i)
                 (s\<lparr>main := AtLoop (take i pending @ drop (Suc i) pending)\<rparr>)"
      using assms AtLoop by (auto simp: step_main_def split: if_splits)
    have "consistent (s\<lparr>main := AtLoop (take i pending @ drop (Suc i) pending)\<rparr>)"
      using assms(2) AtLoop by (simp add: consistent_def started_def)
    then show ?thesis
      unfolding s' by (rule iteration_inv)
  qed
next
  case AtWait
  then show ?thesis
    using assms by (auto simp: step_main_def consistent_def started_def split: if_splits)
next
  case (Returned ms es)
  then show ?thesis
    using assms by (simp add: step_main_def)
qed

lemma busy_update:
  assumes "i < length ws"
  shows "sum_list (map busy (ws[i := w'])) = sum_list (map busy ws) - busy (ws ! i) + busy w'"
  using sum_list_map_update [OF assms, of busy w'] by simp

lemma step_worker_inv:
  assumes "step_worker env i s = Some s'" and "consistent s"
  shows "consistent s'"
proof -
  have i: "i < length (workers s)"
    using assms by (auto simp: step_worker_def split: if_splits)
  have noret: "main s \<noteq> Returned ms es" for ms es
    using returned_no_step [of s ms es env undefined "Worker i"] assms
    by (auto simp: step_def)
  define w where "w = workers s ! i"
  show ?thesis
  proof (cases "w_pc w")
    case WCall
    obtain ms err where c: "client_CollectMetrics env (w_cli w) (w_mt w) = (ms, err)"
      by (cases "client_CollectMetrics env (w_cli w) (w_mt w)")
    have s': "s' = s\<lparr>metrics := ms, workers := (workers s)[i := w\<lparr>w_pc := WBranch err\<rparr>]\<rparr>"
      using assms i WCall c by (simp add: step_worker_def w_def Let_def)
    have "busy (w\<lparr>w_pc := WBranch err\<rparr>) = busy (workers s ! i)"
      using WCall by (simp add: busy_def w_def)
    then show ?thesis
      using assms(2) noret i unfolding s'
      by (cases "main s") (auto simp: consistent_def started_def busy_update)
  next
    case (WBranch err)
    obtain pc' where s': "s' = s\<lparr>workers := (workers s)[i := w\<lparr>w_pc := pc'\<rparr>]\<rparr>"
      and pc': "pc' \<noteq> WExit"
      using assms i WBranch by (cases err) (auto simp: step_worker_def w_def Let_def)
    have "busy (w\<lparr>w_pc := pc'\<rparr>) = busy (workers s ! i)"
      using WBranch pc' by (simp add: busy_def w_def)
    then show ?thesis
      using assms(2) noret i unfolding s'
      by (cases "main s") (auto simp: consistent_def started_def busy_update)
  next
    case (WSendError e)
    have r: "ecol s = EReceive"
      and s': "s' = s\<lparr>ecol := EAppend e, workers := (workers s)[i := w\<lparr>w_pc := WExit\<rparr>]\<rparr>"
      using assms i WSendError by (auto simp: step_worker_def w_def Let_def split: if_splits)
    have "busy (w\<lparr>w_pc := WExit\<rparr>) = 0" "busy (workers s ! i) = 1"
      using WSendError by (simp_all add: busy_def w_def)
    then show ?thesis
      using assms(2) noret i r unfolding s'
      by (cases "main s") (auto simp: consistent_def started_def busy_update ecol_busy_def)
  next
    case (WSendMetrics m)
    have r: "mcol s = MReceive"
      and s': "s' = s\<lparr>mcol := MAppend m, workers := (workers s)[i := w\<lparr>w_pc := WExit\<rparr>]\<rparr>"
      using assms i WSendMetrics by (auto simp: step_worker_def w_def Let_def split: if_splits)
    have "busy (w\<lparr>w_pc := WExit\<rparr>) = 0" "busy (workers s ! i) = 1"
      using WSendMetrics by (simp_all add: busy_def w_def)
    then show ?thesis
      using assms(2) noret i r unfolding s'
      by (cases "main s") (auto simp: consistent_def started_def busy_update mcol_busy_def)
  next
    case WExit
    then show ?thesis
      using assms i by (simp add: step_worker_def w_def Let_def)
  qed
qed

lemma step_mcol_inv:
  assumes "step_mcol s = Some s'" and "consistent s"
  shows "consistent s'"
proof -
  have noret: "main s \<noteq> Returned ms es" for ms es
    using returned_no_step [of s ms es undefined undefined MetricsCollector] assms
    by (auto simp: step_def)
  show ?thesis
    using assms noret
    by (cases "main s"; cases "mcol s")
       (auto simp: step_mcol_def consistent_def started_def mcol_busy_def)
qed

lemma step_ecol_inv:
  assumes "step_ecol s = Some s'" and "consistent s"
  shows "consistent s'"
proof -
  have noret: "main s \<noteq> Returned ms es" for ms es
    using returned_no_step [of s ms es undefined undefined ErrorsCollector] assms
    by (auto simp: step_def)
  show ?thesis
    using assms noret
    by (cases "main s"; cases "ecol s")
       (auto simp: step_ecol_def consistent_def started_def ecol_busy_def)
qed

lemma step_inv: "step env x t s = Some s' \<Longrightarrow> consistent s \<Longrightarrow> consistent s'"
  by (cases t) (auto simp: step_def step_main_inv step_worker_inv step_mcol_inv step_ecol_inv)

lemma run_inv: "run env x ts s = Some s' \<Longrightarrow> consistent s \<Longrightarrow> consistent s'"
proof (induction ts arbitrary: s)
  case Nil
  then show ?case by simp
next
  case (Cons t ts)
  then obtain s1 where "step env x t s = Some s1" "run env x ts s1 = Some s'"
    by (auto split: option.splits)
  moreover from this have "consistent s1"
    using Cons.prems(2) by (simp add: step_inv)
  ultimately show ?case
    using Cons.IH [of s1] by simp
qed

lemma start_inv: "consistent (CollectMetrics_start env metricTypes p)"
  by (auto simp: CollectMetrics_start_def consistent_def started_def mcol_busy_def ecol_busy_def
        len_def split: sum.splits)

subsection \<open>The errors owed are conserved\<close>

lemma iteration_owed:
  "owed env x (iteration env x entry (s\<lparr>main := AtLoop rest\<rparr>)) =
     mset (entry_errors env x entry) + owed env x (s\<lparr>main := AtLoop rest\<rparr>)"
  by (auto simp: iteration_def owed_def entry_errors_def worker_owes_def
           split: sum.splits prod.splits)

lemma step_main_owed:
  assumes "step_main env x i s = Some s'" and "started s"
  shows "owed env x s' = owed env x s"
proof (cases "main s")
  case (AtLoop pending)
  show ?thesis
  proof (cases "pending = []")
    case True
    then show ?thesis
      using assms AtLoop by (auto simp: step_main_def owed_def main_owes_def ecol_owes_def started_def)
  next
    case False
    then have i: "i < length pending"
      and s': "s' = iteration env x (pending ! i)
                 (s\<lparr>main := AtLoop (take i pending @ drop (Suc i) pending)\<rparr>)"
      using assms AtLoop by (auto simp: step_main_def split: if_splits)
    have "owed env x s =
            mset (entry_errors env x (pending ! i)) +
            owed env x (s\<lparr>main := AtLoop (take i pending @ drop (Suc i) pending)\<rparr>)"
      using AtLoop mset_concat_remove [OF i, of "entry_errors env x"]
      by (simp add: owed_def main_owes_def)
    then show ?thesis
      using s' by (simp add: iteration_owed)
  qed
next
  case AtWait
  then show ?thesis
    using assms by (auto simp: step_main_def owed_def main_owes_def split: if_splits)
next
  case (Returned ms es)
  then show ?thesis
    using assms by (simp add: step_main_def)
qed

lemma step_worker_owed:
  assumes "step_worker env i s = Some s'"
  shows "owed env x s' = owed env x s"
proof -
  have i: "i < length (workers s)"
    using assms by (auto simp: step_worker_def split: if_splits)
  define w where "w = workers s ! i"
  have upd: "mset (concat (map (worker_owes env) ((workers s)[i := w']))) + mset (worker_owes env w) =
             mset (concat (map (worker_owes env) (workers s))) + mset (worker_owes env w')" for w'
    using mset_concat_update [OF i, of "worker_owes env" w'] by (simp add: w_def)
  show ?thesis
  proof (cases "w_pc w")
    case WCall
    obtain ms err where c: "client_CollectMetrics env (w_cli w) (w_mt w) = (ms, err)"
      by (cases "client_CollectMetrics env (w_cli w) (w_mt w)")
    have s': "s' = s\<lparr>metrics := ms, workers := (workers s)[i := w\<lparr>w_pc := WBranch err\<rparr>]\<rparr>"
      using assms i WCall c by (simp add: step_worker_def w_def Let_def)
    have "worker_owes env (w\<lparr>w_pc := WBranch err\<rparr>) = worker_owes env w"
      using WCall c by (simp add: worker_owes_def remote_error_def)
    then show ?thesis
      using upd [of "w\<lparr>w_pc := WBranch err\<rparr>"] s' by (simp add: owed_def)
  next
    case (WBranch err)
    show ?thesis
    proof (cases err)
      case None
      have s': "s' = s\<lparr>workers := (workers s)[i := w\<lparr>w_pc := WSendMetrics (metrics s)\<rparr>]\<rparr>"
        using assms i WBranch None by (simp add: step_worker_def w_def Let_def)
      have "worker_owes env (w\<lparr>w_pc := WSendMetrics (metrics s)\<rparr>) = worker_owes env w"
        using WBranch None by (simp add: worker_owes_def)
      then show ?thesis
        using upd [of "w\<lparr>w_pc := WSendMetrics (metrics s)\<rparr>"] s' by (simp add: owed_def)
    next
      case (Some e)
      have s': "s' = s\<lparr>workers := (workers s)[i := w\<lparr>w_pc := WSendError e\<rparr>]\<rparr>"
        using assms i WBranch Some by (simp add: step_worker_def w_def Let_def)
      have "worker_owes env (w\<lparr>w_pc := WSendError e\<rparr>) = worker_owes env w"
        using WBranch Some by (simp add: worker_owes_def)
      then show ?thesis
        using upd [of "w\<lparr>w_pc := WSendError e\<rparr>"] s' by (simp add: owed_def)
    qed
  next
    case (WSendError e)
    have r: "ecol s = EReceive"
      and s': "s' = s\<lparr>ecol := EAppend e, workers := (workers s)[i := w\<lparr>w_pc := WExit\<rparr>]\<rparr>"
      using assms i WSendError by (auto simp: step_worker_def w_def Let_def split: if_splits)
    have "worker_owes env (w\<lparr>w_pc := WExit\<rparr>) = []" "worker_owes env w = [e]"
      using WSendError by (simp_all add: worker_owes_def)
    then show ?thesis
      using upd [of "w\<lparr>w_pc := WExit\<rparr>"] s' r by (simp add: owed_def ecol_owes_def)
  next
    case (WSendMetrics m)
    have s': "s' = s\<lparr>mcol := MAppend m, workers := (workers s)[i := w\<lparr>w_pc := WExit\<rparr>]\<rparr>"
      using assms i WSendMetrics by (auto simp: step_worker_def w_def Let_def split: if_splits)
    have "worker_owes env (w\<lparr>w_pc := WExit\<rparr>) = []" "worker_owes env w = []"
      using WSendMetrics by (simp_all add: worker_owes_def)
    then show ?thesis
      using upd [of "w\<lparr>w_pc := WExit\<rparr>"] s' by (simp add: owed_def)
  next
    case WExit
    then show ?thesis
      using assms i by (simp add: step_worker_def w_def Let_def)
  qed
qed

lemma step_mcol_owed: "step_mcol s = Some s' \<Longrightarrow> owed env x s' = owed env x s"
  by (auto simp: step_mcol_def owed_def split: metrics_collector.splits)

lemma step_ecol_owed: "step_ecol s = Some s' \<Longrightarrow> owed env x s' = owed env x s"
  by (auto simp: step_ecol_def owed_def ecol_owes_def split: errors_collector.splits)

lemma step_owed: "step env x t s = Some s' \<Longrightarrow> started s \<Longrightarrow> owed env x s' = owed env x s"
  by (cases t) (simp_all add: step_def step_main_owed step_worker_owed step_mcol_owed step_ecol_owed)

lemma run_owed:
  "run env x ts s = Some s' \<Longrightarrow> consistent s \<Longrightarrow> owed env x s' = owed env x s"
proof (induction ts arbitrary: s)
  case Nil
  then show ?case by simp
next
  case (Cons t ts)
  then obtain s1 where s1: "step env x t s = Some s1" "run env x ts s1 = Some s'"
    by (auto split: option.splits)
  have "started s"
    using Cons.prems(2) by (simp add: consistent_def)
  then have "owed env x s1 = owed env x s"
    using s1(1) by (rule step_owed [rotated])
  moreover have "consistent s1"
    using s1(1) Cons.prems(2) by (rule step_inv)
  ultimately show ?case
    using Cons.IH [of s1] s1(2) by simp
qed

subsection \<open>Every step brings the return closer\<close>

lemma rank_update:
  assumes "i < length ws"
  shows "sum_list (map worker_rank (ws[i := w'])) + worker_rank (ws ! i) =
         sum_list (map worker_rank ws) + worker_rank w'"
  using sum_list_map_update [OF assms, of worker_rank w'] .

lemma iteration_rank:
  "rank (iteration env x entry (s\<lparr>main := AtLoop rest\<rparr>)) \<le> rank (s\<lparr>main := AtLoop rest\<rparr>) + 7"
  by (auto simp: iteration_def rank_def worker_rank_def split: sum.splits prod.splits)

lemma step_main_rank:
  assumes "step_main env x i s = Some s'"
  shows "rank s' < rank s"
proof (cases "main s")
  case (AtLoop pending)
  show ?thesis
  proof (cases "pending = []")
    case True
    then show ?thesis
      using assms AtLoop by (auto simp: step_main_def rank_def)
  next
    case False
    then have i: "i < length pending"
      and s': "s' = iteration env x (pending ! i)
                 (s\<lparr>main := AtLoop (take i pending @ drop (Suc i) pending)\<rparr>)"
      using assms AtLoop by (auto simp: step_main_def split: if_splits)
    have "rank (s\<lparr>main := AtLoop (take i pending @ drop (Suc i) pending)\<rparr>) + 8 = rank s"
      using AtLoop i by (simp add: rank_def)
    then show ?thesis
      using iteration_rank [where env = env and x = x and entry = "pending ! i" and s = s
          and rest = "take i pending @ drop (Suc i) pending"] s'
      by simp
  qed
next
  case AtWait
  then show ?thesis
    using assms by (auto simp: step_main_def rank_def split: if_splits)
next
  case (Returned ms es)
  then show ?thesis
    using assms by (simp add: step_main_def)
qed

lemma step_worker_rank:
  assumes "step_worker env i s = Some s'"
  shows "rank s' < rank s"
proof -
  have i: "i < length (workers s)"
    using assms by (auto simp: step_worker_def split: if_splits)
  define w where "w = workers s ! i"
  have upd: "sum_list (map worker_rank ((workers s)[i := w'])) + worker_rank w =
             sum_list (map worker_rank (workers s)) + worker_rank w'" for w'
    using rank_update [OF i, of w'] by (simp add: w_def)
  show ?thesis
  proof (cases "w_pc w")
    case WCall
    obtain ms err where c: "client_CollectMetrics env (w_cli w) (w_mt w) = (ms, err)"
      by (cases "client_CollectMetrics env (w_cli w) (w_mt w)")
    have s': "s' = s\<lparr>metrics := ms, workers := (workers s)[i := w\<lparr>w_pc := WBranch err\<rparr>]\<rparr>"
      using assms i WCall c by (simp add: step_worker_def w_def Let_def)
    have "worker_rank (w\<lparr>w_pc := WBranch err\<rparr>) = 6" "worker_rank w = 7"
      using WCall by (simp_all add: worker_rank_def)
    then show ?thesis
      using upd [of "w\<lparr>w_pc := WBranch err\<rparr>"] unfolding s' by (simp add: rank_def)
  next
    case (WBranch err)
    obtain pc' where s': "s' = s\<lparr>workers := (workers s)[i := w\<lparr>w_pc := pc'\<rparr>]\<rparr>"
      and pc': "pc' = WSendError (the err) \<or> pc' = WSendMetrics (metrics s)"
      using assms i WBranch by (cases err) (auto simp: step_worker_def w_def Let_def)
    have "worker_rank (w\<lparr>w_pc := pc'\<rparr>) = 5" "worker_rank w = 6"
      using WBranch pc' by (auto simp: worker_rank_def)
    then show ?thesis
      using upd [of "w\<lparr>w_pc := pc'\<rparr>"] unfolding s' by (simp add: rank_def)
  next
    case (WSendError e)
    have r: "ecol s = EReceive"
      and s': "s' = s\<lparr>ecol := EAppend e, workers := (workers s)[i := w\<lparr>w_pc := WExit\<rparr>]\<rparr>"
      using assms i WSendError by (auto simp: step_worker_def w_def Let_def split: if_splits)
    have "worker_rank (w\<lparr>w_pc := WExit\<rparr>) = 0" "worker_rank w = 5"
      using WSendError by (simp_all add: worker_rank_def)
    then show ?thesis
      using upd [of "w\<lparr>w_pc := WExit\<rparr>"] r unfolding s' by (simp add: rank_def)
  next
    case (WSendMetrics m)
    have r: "mcol s = MReceive"
      and s': "s' = s\<lparr>mcol := MAppend m, workers := (workers s)[i := w\<lparr>w_pc := WExit\<rparr>]\<rparr>"
      using assms i WSendMetrics by (auto simp: step_worker_def w_def Let_def split: if_splits)
    have "worker_rank (w\<lparr>w_pc := WExit\<rparr>) = 0" "worker_rank w = 5"
      using WSendMetrics by (simp_all add: worker_rank_def)
    then show ?thesis
      using upd [of "w\<lparr>w_pc := WExit\<rparr>"] r unfolding s' by (simp add: rank_def)
  next
    case WExit
    then show ?thesis
      using assms i by (simp add: step_worker_def w_def Let_def)
  qed
qed

lemma step_mcol_rank: "step_mcol s = Some s' \<Longrightarrow> rank s' < rank s"
  by (cases "mcol s") (auto simp: step_mcol_def rank_def)

lemma step_ecol_rank: "step_ecol s = Some s' \<Longrightarrow> rank s' < rank s"
  by (cases "ecol s") (auto simp: step_ecol_def rank_def)

lemma step_rank: "step env x t s = Some s' \<Longrightarrow> rank s' < rank s"
  by (cases t) (simp_all add: step_def step_main_rank step_worker_rank step_mcol_rank step_ecol_rank)

text \<open>No execution is longer than the rank of its first state.\<close>

lemma run_bounded: "run env x ts s = Some s' \<Longrightarrow> rank s' + length ts \<le> rank s"
proof (induction ts arbitrary: s)
  case Nil
  then show ?case by simp
next
  case (Cons t ts)
  then obtain s1 where s1: "step env x t s = Some s1" "run env x ts s1 = Some s'"
    by (auto split: option.splits)
  have "rank s1 < rank s"
    using s1(1) by (rule step_rank)
  then show ?case
    using Cons.IH [OF s1(2)] by simp
qed

subsection \<open>No deadlock\<close>

lemma busy_worker:
  "sum_list (map busy ws) \<noteq> 0 \<Longrightarrow> \<exists>i < length ws. w_pc (ws ! i) \<noteq> WExit"
proof (induction ws)
  case Nil
  then show ?case by simp
next
  case (Cons a ws)
  show ?case
  proof (cases "w_pc a = WExit")
    case True
    then have "busy a = 0"
      by (simp add: busy_def)
    then have "sum_list (map busy ws) \<noteq> 0"
      using Cons.prems by simp
    then obtain i where "i < length ws" "w_pc (ws ! i) \<noteq> WExit"
      using Cons.IH by blast
    then have "Suc i < length (a # ws) \<and> w_pc ((a # ws) ! Suc i) \<noteq> WExit"
      by simp
    then show ?thesis by blast
  next
    case False
    then have "0 < length (a # ws) \<and> w_pc ((a # ws) ! 0) \<noteq> WExit"
      by simp
    then show ?thesis by blast
  qed
qed

text \<open>
  A state that has not returned can take a step: the call never blocks for ever.
\<close>

lemma no_deadlock:
  assumes "consistent s" and "\<forall>ms es. main s \<noteq> Returned ms es"
  shows "\<exists>t s'. step env x t s = Some s'"
proof (cases "main s")
  case (AtLoop pending)
  then have "step env x (Main 0) s \<noteq> None"
    by (cases "pending = []") (simp_all add: step_def step_main_def)
  then show ?thesis by blast
next
  case AtWait
  have st: "mcol s \<noteq> MNotStarted" "ecol s \<noteq> ENotStarted"
    using assms(1) AtWait by (simp_all add: consistent_def started_def)
  show ?thesis
  proof (cases "wg s = 0")
    case True
    then have "step env x (Main 0) s \<noteq> None"
      using AtWait by (simp add: step_def step_main_def)
    then show ?thesis by blast
  next
    case False
    show ?thesis
    proof (cases "mcol s = MReceive")
      case mrecv: True
      show ?thesis
      proof (cases "ecol s = EReceive")
        case erecv: True
        have "sum_list (map busy (workers s)) \<noteq> 0"
          using assms(1) False mrecv erecv
          by (simp add: consistent_def mcol_busy_def ecol_busy_def)
        then obtain i where i: "i < length (workers s)" "w_pc (workers s ! i) \<noteq> WExit"
          using busy_worker by blast
        then have "step env x (Worker i) s \<noteq> None"
          using mrecv erecv
          by (cases "w_pc (workers s ! i)")
             (auto simp: step_def step_worker_def Let_def split: prod.splits option.splits)
        then show ?thesis by blast
      next
        case False
        then have "step env x ErrorsCollector s \<noteq> None"
          using st by (cases "ecol s") (simp_all add: step_def step_ecol_def)
        then show ?thesis by blast
      qed
    next
      case False
      then have "step env x MetricsCollector s \<noteq> None"
        using st by (cases "mcol s") (simp_all add: step_def step_mcol_def)
      then show ?thesis by blast
    qed
  qed
next
  case (Returned ms es)
  then show ?thesis using assms(2) by simp
qed

text \<open>From every consistent state some schedule ends with the return of the call.\<close>

lemma run_to_return:
  "consistent s \<Longrightarrow> \<exists>ts s' ms es. run env x ts s = Some s' \<and> main s' = Returned ms es"
proof (induction "rank s" arbitrary: s rule: less_induct)
  case less
  show ?case
  proof (cases "\<exists>ms es. main s = Returned ms es")
    case True
    then have "\<exists>ms es. run env x [] s = Some s \<and> main s = Returned ms es"
      by simp
    then show ?thesis by blast
  next
    case False
    then obtain t s1 where s1: "step env x t s = Some s1"
      using no_deadlock [OF less.prems, of env x] by blast
    have "rank s1 < rank s" "consistent s1"
      using s1 less.prems by (simp_all add: step_rank step_inv)
    then obtain ts s' ms es where "run env x ts s1 = Some s'" "main s' = Returned ms es"
      using less.hyps by blast
    then have "run env x (t # ts) s = Some s' \<and> main s' = Returned ms es"
      using s1 by simp
    then show ?thesis by blast
  qed
qed

subsection \<open>The groups dispatched and the errors of the loop\<close>

lemma tasks_update [simp]:
  "i < length (workers s) \<Longrightarrow>
     map (\<lambda>w. (w_cli w, w_mt w)) ((workers s)[i := (workers s ! i)\<lparr>w_pc := pc\<rparr>]) =
     map (\<lambda>w. (w_cli w, w_mt w)) (workers s)"
  by (simp add: map_update list_update_same_conv)

lemma step_worker_tasks:
  assumes "step_worker env i s = Some s'"
  shows "tasks s' = tasks s \<and> main s' = main s \<and> errs s' = errs s"
proof -
  have i: "i < length (workers s)"
    using assms by (auto simp: step_worker_def split: if_splits)
  show ?thesis
    using assms i
    by (cases "w_pc (workers s ! i)")
       (auto simp: step_worker_def tasks_def Let_def split: prod.splits option.splits if_splits)
qed

lemma iteration_planned:
  "planned env x (iteration env x entry (s\<lparr>main := AtLoop rest\<rparr>)) =
     mset (dispatched env x [entry]) + planned env x (s\<lparr>main := AtLoop rest\<rparr>)"
  by (auto simp: iteration_def planned_def dispatched_def tasks_def split: sum.splits prod.splits)

lemma iteration_loop_owed:
  "loop_owed env x (iteration env x entry (s\<lparr>main := AtLoop rest\<rparr>)) =
     mset (loop_errors env x [entry]) + loop_owed env x (s\<lparr>main := AtLoop rest\<rparr>)"
  by (auto simp: iteration_def loop_owed_def loop_errors_def split: sum.splits prod.splits)

lemma step_main_planned:
  assumes "step_main env x i s = Some s'"
  shows "planned env x s' = planned env x s \<and> loop_owed env x s' = loop_owed env x s"
proof (cases "main s")
  case (AtLoop pending)
  show ?thesis
  proof (cases "pending = []")
    case True
    then show ?thesis
      using assms AtLoop
      by (auto simp: step_main_def planned_def loop_owed_def dispatched_def loop_errors_def tasks_def)
  next
    case False
    then have i: "i < length pending"
      and s': "s' = iteration env x (pending ! i)
                 (s\<lparr>main := AtLoop (take i pending @ drop (Suc i) pending)\<rparr>)"
      using assms AtLoop by (auto simp: step_main_def split: if_splits)
    have "planned env x s =
            mset (dispatched env x [pending ! i]) +
            planned env x (s\<lparr>main := AtLoop (take i pending @ drop (Suc i) pending)\<rparr>)"
      using AtLoop mset_concat_remove [OF i]
      by (simp add: planned_def dispatched_def tasks_def)
    moreover have "loop_owed env x s =
            mset (loop_errors env x [pending ! i]) +
            loop_owed env x (s\<lparr>main := AtLoop (take i pending @ drop (Suc i) pending)\<rparr>)"
      using AtLoop mset_concat_remove [OF i]
      by (simp add: loop_owed_def loop_errors_def)
    ultimately show ?thesis
      using s' by (simp add: iteration_planned iteration_loop_owed)
  qed
next
  case AtWait
  then show ?thesis
    using assms by (auto simp: step_main_def planned_def loop_owed_def tasks_def split: if_splits)
next
  case (Returned ms es)
  then show ?thesis
    using assms by (simp add: step_main_def)
qed

lemma step_planned: "step env x t s = Some s' \<Longrightarrow> planned env x s' = planned env x s"
proof (cases t)
  case (Main i)
  then show "step env x t s = Some s' \<Longrightarrow> ?thesis"
    by (simp add: step_def step_main_planned)
next
  case (Worker i)
  then show "step env x t s = Some s' \<Longrightarrow> ?thesis"
    using step_worker_tasks [of env i s s'] by (simp add: step_def planned_def)
next
  case MetricsCollector
  then show "step env x t s = Some s' \<Longrightarrow> ?thesis"
    by (cases "mcol s") (auto simp: step_def step_mcol_def planned_def tasks_def)
next
  case ErrorsCollector
  then show "step env x t s = Some s' \<Longrightarrow> ?thesis"
    by (cases "ecol s") (auto simp: step_def step_ecol_def planned_def tasks_def)
qed

lemma step_loop_owed: "step env x t s = Some s' \<Longrightarrow> loop_owed env x s \<subseteq># loop_owed env x s'"
proof (cases t)
  case (Main i)
  then show "step env x t s = Some s' \<Longrightarrow> ?thesis"
    by (simp add: step_def step_main_planned)
next
  case (Worker i)
  then show "step env x t s = Some s' \<Longrightarrow> ?thesis"
    using step_worker_tasks [of env i s s'] by (simp add: step_def loop_owed_def)
next
  case MetricsCollector
  then show "step env x t s = Some s' \<Longrightarrow> ?thesis"
    by (cases "mcol s") (auto simp: step_def step_mcol_def loop_owed_def)
next
  case ErrorsCollector
  then show "step env x t s = Some s' \<Longrightarrow> ?thesis"
    by (cases "ecol s") (auto simp: step_def step_ecol_def loop_owed_def)
qed

lemma run_planned:
  "run env x ts s = Some s' \<Longrightarrow>
     planned env x s' = planned env x s \<and> loop_owed env x s \<subseteq># loop_owed env x s'"
proof (induction ts arbitrary: s)
  case Nil
  then show ?case by simp
next
  case (Cons t ts)
  then obtain s1 where s1: "step env x t s = Some s1" "run env x ts s1 = Some s'"
    by (auto split: option.splits)
  have "planned env x s1 = planned env x s" "loop_owed env x s \<subseteq># loop_owed env x s1"
    using s1(1) by (simp_all add: step_planned step_loop_owed)
  then show ?case
    using Cons.IH [OF s1(2)] by (auto intro: subset_mset.order_trans)
qed

subsection \<open>The results of a call\<close>

lemma elems_simps [simp]: "elems None = []" "elems (Some xs) = xs"
  by (simp_all add: elems_def)

lemma start_owed:
  "owed env (collab (backend p)) (CollectMetrics_start env metricTypes p) =
     mset (expected_errors env (collab (backend p)) metricTypes)"
  by (auto simp: CollectMetrics_start_def owed_def expected_errors_def main_owes_def
        ecol_owes_def split: sum.splits)

lemma returned_owed:
  assumes "consistent s" and "main s = Returned ms es"
  shows "owed env x s = mset (elems es) \<and> es = errs s \<and>
         ms = (if len (errs s) > 0 then None else metrics s)"
proof -
  have idle: "(\<forall>w \<in> set (workers s). w_pc w = WExit) \<and> ecol_busy (ecol s) = 0"
    using assms idle_when_zero returned_wg by blast
  then have "concat (map (worker_owes env) (workers s)) = []"
    by (auto simp: worker_owes_def)
  moreover have "ecol_owes (ecol s) = []"
    using idle by (cases "ecol s") (auto simp: ecol_owes_def ecol_busy_def)
  moreover have "es = errs s" "ms = (if len (errs s) > 0 then None else metrics s)"
    using assms by (simp_all add: consistent_def started_def)
  ultimately show ?thesis
    using assms(2) by (simp add: owed_def main_owes_def)
qed

lemma CollectMetrics_SomeD:
  assumes "CollectMetrics env schedule metricTypes deadline p = Some ((ms, es), p')"
  shows "\<exists>s. run env (collab (backend p)) schedule (CollectMetrics_start env metricTypes p) = Some s \<and>
             main s = Returned ms es \<and> p' = p\<lparr>backend := (backend p)\<lparr>hitCount := hits s\<rparr>\<rparr>"
  using assms by (auto simp: CollectMetrics_def split: option.splits main_pc.splits)

text \<open>Every call returns under some schedule, and no schedule blocks it for ever.\<close>

lemma CollectMetrics_returns:
  "\<exists>schedule r. CollectMetrics env schedule metricTypes deadline p = Some r"
proof -
  obtain ts s' ms es where
    "run env (collab (backend p)) ts (CollectMetrics_start env metricTypes p) = Some s'"
    "main s' = Returned ms es"
    using run_to_return [OF start_inv, where env = env and x = "collab (backend p)"] by blast
  then have "CollectMetrics env ts metricTypes deadline p \<noteq> None"
    by (simp add: CollectMetrics_def)
  then show ?thesis by blast
qed

lemma CollectMetrics_errors:
  assumes "CollectMetrics env schedule metricTypes deadline p = Some ((ms, es), p')"
  shows "mset (elems es) = mset (expected_errors env (collab (backend p)) metricTypes) \<and>
         (if expected_errors env (collab (backend p)) metricTypes = [] then es = None
          else ms = None \<and> 0 < len es)"
proof -
  let ?x = "collab (backend p)"
  obtain s where s: "run env ?x schedule (CollectMetrics_start env metricTypes p) = Some s"
    "main s = Returned ms es"
    using CollectMetrics_SomeD [OF assms] by blast
  have c: "consistent s"
    using s(1) start_inv by (rule run_inv)
  have "owed env ?x s = mset (expected_errors env ?x metricTypes)"
    using run_owed [OF s(1) start_inv] start_owed by simp
  then have m: "mset (elems es) = mset (expected_errors env ?x metricTypes)"
    using returned_owed [OF c s(2), of env ?x] by simp
  have r: "es = errs s" "ms = (if len (errs s) > 0 then None else metrics s)"
    using returned_owed [OF c s(2), of env ?x] by simp_all
  have ne: "errs s \<noteq> Some []"
    using c by (simp add: consistent_def)
  show ?thesis
  proof (cases "expected_errors env ?x metricTypes = []")
    case True
    then have "elems es = []"
      using m by simp
    then have "es = None"
      using r(1) ne by (cases "errs s") simp_all
    then show ?thesis
      using True m by simp
  next
    case False
    then have "elems es \<noteq> []"
      using m by auto
    then have "0 < len es"
      by (simp add: len_def)
    then show ?thesis
      using False m r by simp
  qed
qed

subsection \<open>Evaluating a schedule on the small instance\<close>

lemmas eval_defs =
  CollectMetrics_def CollectMetrics_start_def groupMetricTypesByPlugin_def
  step_def step_main_def step_worker_def step_mcol_def step_ecol_def iteration_def
  resolve_def getPool_def getAvailablePlugin_def demo_def ctl_def plug_def requested_def
  Key_def Itoa_def digits.simps append1_def appendAll_def len_def Let_def

subsection \<open>Fail-closed collection\<close>

text \<open>
  Claim C1. Every call of \<open>CollectMetrics\<close> returns: some schedule ends with its
  return, no execution is longer than the rank of the first state, and every state
  of an execution has either returned or can take a step. Whatever the schedule,
  the returned error list holds exactly the errors of the call: the grouping error,
  or, group by group, the error of the pool resolution, of the instance selection,
  of the cast or of the remote call. If there is no such error the error list is
  nil; if there is one, the metrics are nil and the error list is not empty, also
  when other groups collected metrics. So metrics are returned only with a nil error
  list.
\<close>

theorem CollectMetrics_fail_closed:
  "(\<exists>schedule r. CollectMetrics env schedule metricTypes deadline p = Some r) \<and>
   (\<forall>schedule s.
      run env (collab (backend p)) schedule (CollectMetrics_start env metricTypes p) = Some s \<longrightarrow>
      length schedule \<le> rank (CollectMetrics_start env metricTypes p) \<and>
      ((\<exists>ms es. main s = Returned ms es) \<or>
       (\<exists>t s'. step env (collab (backend p)) t s = Some s'))) \<and>
   (\<forall>schedule ms es p'.
      CollectMetrics env schedule metricTypes deadline p = Some ((ms, es), p') \<longrightarrow>
      mset (elems es) = mset (expected_errors env (collab (backend p)) metricTypes) \<and>
      (if expected_errors env (collab (backend p)) metricTypes = [] then es = None
       else ms = None \<and> 0 < len es))"
proof (intro conjI allI impI)
  show "\<exists>schedule r. CollectMetrics env schedule metricTypes deadline p = Some r"
    by (rule CollectMetrics_returns)
next
  fix schedule s
  assume r: "run env (collab (backend p)) schedule (CollectMetrics_start env metricTypes p) = Some s"
  from run_bounded [OF r]
  show "length schedule \<le> rank (CollectMetrics_start env metricTypes p)"
    by simp
  have c: "consistent s"
    using r start_inv by (rule run_inv)
  show "(\<exists>ms es. main s = Returned ms es) \<or>
        (\<exists>t s'. step env (collab (backend p)) t s = Some s')"
  proof (cases "\<exists>ms es. main s = Returned ms es")
    case True
    then show ?thesis ..
  next
    case False
    then have "\<forall>ms es. main s \<noteq> Returned ms es"
      by simp
    with c have "\<exists>t s'. step env (collab (backend p)) t s = Some s'"
      by (rule no_deadlock)
    then show ?thesis ..
  qed
next
  fix schedule ms es p'
  assume "CollectMetrics env schedule metricTypes deadline p = Some ((ms, es), p')"
  then show "mset (elems es) = mset (expected_errors env (collab (backend p)) metricTypes)"
    and "if expected_errors env (collab (backend p)) metricTypes = [] then es = None
         else ms = None \<and> 0 < len es"
    using CollectMetrics_errors by blast+
qed

lemma demo_two_groups:
  "map_option fst (CollectMetrics demo
     [Main 1, Main 0, Main 0, Worker 0, Worker 0, Worker 0, MetricsCollector,
      MetricsCollector, MetricsCollector, Main 0]
     [requested [''cpu'', ''temp''], requested [''mem'', ''free'']] 0
     (ctl True [plug ''cpu'' 1, plug ''mem'' 1])) =
   Some (None, Some [''there is no availablePlugins in pool (mem:1)''])"
  by (simp add: eval_defs)

lemma demo_two_groups_expected:
  "expected_errors demo (collab (backend (ctl True [plug ''cpu'' 1, plug ''mem'' 1])))
     [requested [''cpu'', ''temp''], requested [''mem'', ''free'']] =
   [''there is no availablePlugins in pool (mem:1)'']"
  by (simp add: expected_errors_def entry_errors_def remote_error_def eval_defs)

theorem CollectMetrics_fail_closed_witness:
  "snd (client_CollectMetrics demo 10 [requested [''cpu'', ''temp'']]) = None \<and>
   map_option fst (CollectMetrics demo
     [Main 1, Main 0, Main 0, Worker 0, Worker 0, Worker 0, MetricsCollector,
      MetricsCollector, MetricsCollector, Main 0]
     [requested [''cpu'', ''temp''], requested [''mem'', ''free'']] 0
     (ctl True [plug ''cpu'' 1, plug ''mem'' 1])) =
   Some (None, Some [''there is no availablePlugins in pool (mem:1)''])"
proof -
  let ?sched = "[Main 1, Main 0, Main 0, Worker 0, Worker 0, Worker 0, MetricsCollector,
      MetricsCollector, MetricsCollector, Main 0]"
  let ?mts = "[requested [''cpu'', ''temp''], requested [''mem'', ''free'']]"
  let ?p = "ctl True [plug ''cpu'' 1, plug ''mem'' 1]"
  obtain ms es p' where r: "CollectMetrics demo ?sched ?mts 0 ?p = Some ((ms, es), p')"
    using demo_two_groups by (cases "CollectMetrics demo ?sched ?mts 0 ?p") auto
  have "mset (elems es) = {#''there is no availablePlugins in pool (mem:1)''#} \<and> ms = None"
    using CollectMetrics_fail_closed [of demo ?mts 0 ?p] r demo_two_groups_expected
    by (metis (no_types, lifting) list.distinct(1) mset.simps(1) mset.simps(2))
  then have "elems es = [''there is no availablePlugins in pool (mem:1)''] \<and> ms = None"
    by simp
  then have "ms = None \<and> es = Some [''there is no availablePlugins in pool (mem:1)'']"
    by (cases es) simp_all
  moreover have "snd (client_CollectMetrics demo 10 [requested [''cpu'', ''temp'']]) = None"
    by (simp add: demo_def)
  ultimately show ?thesis
    using r by simp
qed

subsection \<open>Grouping\<close>

lemma groupLoop_fails:
  "mt \<in> set metricTypes \<Longrightarrow> lookup_fails env x mt \<Longrightarrow>
     \<exists>e. groupLoop env x pmts metricTypes = Inl e"
proof (induction metricTypes arbitrary: pmts)
  case Nil
  then show ?case by simp
next
  case (Cons a rest)
  obtain lp err where g: "GetPlugin env (Namespace a) (- 1) x = (lp, err)"
    by (cases "GetPlugin env (Namespace a) (- 1) x")
  show ?case
  proof (cases "err \<noteq> None \<or> lp = None")
    case True
    then show ?thesis
      using g by (cases err; cases lp) simp_all
  next
    case False
    then obtain l where l: "lp = Some l" "err = None"
      by auto
    have "mt \<in> set rest"
      using Cons.prems False g by (auto simp: lookup_fails_def)
    then show ?thesis
      using Cons.IH Cons.prems(2) g l by (simp add: Let_def)
  qed
qed

lemma run_from_returned:
  assumes "consistent s" and "main s = Returned ms es" and "run env x ts s = Some s'"
  shows "ts = [] \<and> s' = s"
proof (cases ts)
  case Nil
  then show ?thesis using assms(3) by simp
next
  case (Cons t rest)
  have "step env x t s = None"
    using assms(1,2) by (rule returned_no_step)
  then have "run env x (t # rest) s = None"
    by simp
  then show ?thesis
    using assms(3) Cons by simp
qed

text \<open>
  Claim C6. If the owning-plugin lookup fails (an error, or no plugin) for one of
  the requested metrics, grouping gives an error, and \<open>CollectMetrics\<close> returns nil
  metrics and exactly this one error, without taking a step: no goroutine is
  dispatched, and the empty schedule is its only execution.
\<close>

theorem grouping_aborts:
  assumes "mt \<in> set metricTypes" and "lookup_fails env (collab (backend p)) mt"
  shows "\<exists>e. groupMetricTypesByPlugin env (collab (backend p)) metricTypes = Inl e \<and>
             CollectMetrics env [] metricTypes deadline p = Some ((None, Some [e]), p) \<and>
             workers (CollectMetrics_start env metricTypes p) = [] \<and>
             (\<forall>schedule r. CollectMetrics env schedule metricTypes deadline p = Some r \<longrightarrow>
                schedule = [] \<and> r = ((None, Some [e]), p))"
proof -
  let ?x = "collab (backend p)"
  let ?s = "CollectMetrics_start env metricTypes p"
  have "\<exists>e. groupLoop env ?x [] metricTypes = Inl e"
    using assms by (rule groupLoop_fails)
  then obtain e where e: "groupMetricTypesByPlugin env ?x metricTypes = Inl e"
    unfolding groupMetricTypesByPlugin_def by (rule exE)
  have s: "?s = \<lparr>main = Returned None (Some [e]), metrics = None,
           errs = Some [e], wg = 0, workers = [],
           mcol = MNotStarted, ecol = ENotStarted, hits = hitCount (backend p)\<rparr>"
    using e by (simp add: CollectMetrics_start_def append1_def)
  have m: "main ?s = Returned None (Some [e])" and w: "workers ?s = []"
    and h: "hits ?s = hitCount (backend p)"
    unfolding s by simp_all
  have first: "CollectMetrics env [] metricTypes deadline p = Some ((None, Some [e]), p)"
    unfolding CollectMetrics_def using m h by simp
  have only: "\<forall>schedule r. CollectMetrics env schedule metricTypes deadline p = Some r \<longrightarrow>
                schedule = [] \<and> r = ((None, Some [e]), p)"
  proof (intro allI impI)
    fix schedule r
    assume a: "CollectMetrics env schedule metricTypes deadline p = Some r"
    then obtain s' where s': "run env ?x schedule ?s = Some s'"
      by (cases "run env ?x schedule ?s") (simp_all add: CollectMetrics_def)
    have "schedule = [] \<and> s' = ?s"
      using start_inv m s' by (rule run_from_returned)
    then show "schedule = [] \<and> r = ((None, Some [e]), p)"
      using a first by simp
  qed
  show ?thesis
    by (rule exI [of _ e]) (intro conjI e first w only)
qed

lemma demo_lookup_fails:
  "lookup_fails demo (collab (backend (ctl True [plug ''cpu'' 1]))) (requested [''gpu'', ''x''])"
  by (simp add: lookup_fails_def demo_def requested_def plug_def)

lemma demo_grouping_fails:
  "groupMetricTypesByPlugin demo (collab (backend (ctl True [plug ''cpu'' 1])))
     [requested [''cpu'', ''temp''], requested [''gpu'', ''x'']] = Inl ''Metric missing: gpu/x''"
  by (simp add: eval_defs)

theorem grouping_aborts_witness:
  "CollectMetrics demo [] [requested [''cpu'', ''temp''], requested [''gpu'', ''x'']] 0
     (ctl True [plug ''cpu'' 1]) =
   Some ((None, Some [''Metric missing: gpu/x'']), ctl True [plug ''cpu'' 1])"
proof -
  let ?mts = "[requested [''cpu'', ''temp''], requested [''gpu'', ''x'']]"
  let ?p = "ctl True [plug ''cpu'' 1]"
  have "requested [''gpu'', ''x''] \<in> set ?mts"
    by simp
  then have "\<exists>e. groupMetricTypesByPlugin demo (collab (backend ?p)) ?mts = Inl e \<and>
             CollectMetrics demo [] ?mts 0 ?p = Some ((None, Some [e]), ?p) \<and>
             workers (CollectMetrics_start demo ?mts ?p) = [] \<and>
             (\<forall>schedule r. CollectMetrics demo schedule ?mts 0 ?p = Some r \<longrightarrow>
                schedule = [] \<and> r = ((None, Some [e]), ?p))"
    using demo_lookup_fails by (rule grouping_aborts)
  then obtain e where
    e: "groupMetricTypesByPlugin demo (collab (backend ?p)) ?mts = Inl e" and
    r: "CollectMetrics demo [] ?mts 0 ?p = Some ((None, Some [e]), ?p)"
    by (elim exE conjE)
  have "e = ''Metric missing: gpu/x''"
    using e unfolding demo_grouping_fails by simp
  then show ?thesis
    using r by simp
qed

subsection \<open>An empty request\<close>

lemma quiet_step:
  assumes "step env x t s = Some s'" and "quiet h s"
  shows "quiet h s'"
proof (cases t)
  case (Main i)
  then show ?thesis
    using assms
    by (auto simp: step_def step_main_def quiet_def len_def split: main_pc.splits if_splits)
next
  case (Worker i)
  then show ?thesis
    using assms by (simp add: step_def step_worker_def quiet_def)
next
  case MetricsCollector
  then show ?thesis
    using assms by (auto simp: step_def step_mcol_def quiet_def)
next
  case ErrorsCollector
  then show ?thesis
    using assms by (auto simp: step_def step_ecol_def quiet_def)
qed

lemma quiet_run: "run env x ts s = Some s' \<Longrightarrow> quiet h s \<Longrightarrow> quiet h s'"
proof (induction ts arbitrary: s)
  case Nil
  then show ?case by simp
next
  case (Cons t ts)
  then obtain s1 where s1: "step env x t s = Some s1" "run env x ts s1 = Some s'"
    by (auto split: option.splits)
  have "quiet h s1"
    using s1(1) Cons.prems(2) by (rule quiet_step)
  then show ?case
    using Cons.IH [OF s1(2)] by simp
qed

lemma start_quiet: "quiet (hitCount (backend p)) (CollectMetrics_start env [] p)"
  by (simp add: CollectMetrics_start_def groupMetricTypesByPlugin_def quiet_def)

text \<open>
  Claim C10. With an empty set of requested metrics, whatever the deadline,
  \<open>CollectMetrics\<close> returns nil metrics and nil errors: it does so after the two
  steps of the calling goroutine, every schedule under which it returns gives this
  result and leaves the \<open>pluginControl\<close> as it was, and no state of any execution
  has a dispatched goroutine.
\<close>

theorem CollectMetrics_empty:
  "CollectMetrics env [Main i, Main j] [] deadline p = Some ((None, None), p) \<and>
   (\<forall>schedule r. CollectMetrics env schedule [] deadline p = Some r \<longrightarrow> r = ((None, None), p)) \<and>
   (\<forall>schedule s. run env (collab (backend p)) schedule (CollectMetrics_start env [] p) = Some s \<longrightarrow>
      workers s = [])"
proof (intro conjI allI impI)
  show "CollectMetrics env [Main i, Main j] [] deadline p = Some ((None, None), p)"
    by (simp add: CollectMetrics_def CollectMetrics_start_def groupMetricTypesByPlugin_def
          step_def step_main_def len_def)
next
  fix schedule r
  assume a: "CollectMetrics env schedule [] deadline p = Some r"
  obtain ms es p' where r: "r = ((ms, es), p')"
    by (cases r) auto
  obtain s where s: "run env (collab (backend p)) schedule (CollectMetrics_start env [] p) = Some s"
    "main s = Returned ms es" "p' = p\<lparr>backend := (backend p)\<lparr>hitCount := hits s\<rparr>\<rparr>"
    using CollectMetrics_SomeD a r by blast
  have "quiet (hitCount (backend p)) s"
    using s(1) start_quiet by (rule quiet_run)
  then show "r = ((None, None), p)"
    using r s(2,3) by (auto simp: quiet_def)
next
  fix schedule s
  assume "run env (collab (backend p)) schedule (CollectMetrics_start env [] p) = Some s"
  then have "quiet (hitCount (backend p)) s"
    using start_quiet by (rule quiet_run)
  then show "workers s = []"
    by (simp add: quiet_def)
qed

theorem CollectMetrics_empty_witness:
  "CollectMetrics demo [Main 0, Main 0] [] 0 (ctl True [plug ''cpu'' 1]) =
     Some ((None, None), ctl True [plug ''cpu'' 1]) \<and>
   CollectMetrics demo [Main 0, Main 0] [] 1000 (ctl True [plug ''cpu'' 1]) =
     Some ((None, None), ctl True [plug ''cpu'' 1])"
  using CollectMetrics_empty [of demo 0 0 0 "ctl True [plug ''cpu'' 1]"]
    CollectMetrics_empty [of demo 0 0 1000 "ctl True [plug ''cpu'' 1]"]
  by simp

subsection \<open>Independent groups\<close>

lemma start_planned:
  assumes "groupMetricTypesByPlugin env (collab (backend p)) metricTypes = Inr pmts"
  shows "planned env (collab (backend p)) (CollectMetrics_start env metricTypes p) =
           mset (dispatched env (collab (backend p)) pmts)"
    and "loop_owed env (collab (backend p)) (CollectMetrics_start env metricTypes p) =
           mset (loop_errors env (collab (backend p)) pmts)"
  using assms by (simp_all add: CollectMetrics_start_def planned_def loop_owed_def tasks_def)

lemma dispatched_member:
  assumes "entry \<in> set pmts" and "resolve env x (fst entry) = Inr (ap, cli)"
  shows "(cli, pmt_metricTypes (snd entry)) \<in> set (dispatched env x pmts)"
  using assms by (force simp: dispatched_def)

lemma loop_errors_member:
  assumes "entry \<in> set pmts" and "resolve env x (fst entry) = Inl err"
  shows "err \<in> set (loop_errors env x pmts)"
  using assms by (force simp: loop_errors_def)

lemma loop_over:
  assumes "groupMetricTypesByPlugin env (collab (backend p)) metricTypes = Inr pmts"
    and "run env (collab (backend p)) schedule (CollectMetrics_start env metricTypes p) = Some s"
    and "\<forall>pending. main s \<noteq> AtLoop pending"
  shows "mset (tasks s) = mset (dispatched env (collab (backend p)) pmts) \<and>
         mset (loop_errors env (collab (backend p)) pmts) \<subseteq># mset (elems (errs s)) \<and>
         (\<forall>entry \<in> set pmts.
            case resolve env (collab (backend p)) (fst entry) of
              Inl err \<Rightarrow> err \<in> set (elems (errs s))
            | Inr (ap, cli) \<Rightarrow> (cli, pmt_metricTypes (snd entry)) \<in> set (tasks s))"
proof -
  let ?x = "collab (backend p)"
  have over: "planned env ?x s = mset (tasks s)" "loop_owed env ?x s = mset (elems (errs s))"
    using assms(3) by (cases "main s"; simp add: planned_def loop_owed_def)+
  have t: "mset (tasks s) = mset (dispatched env ?x pmts)"
    using run_planned [OF assms(2)] start_planned(1) [OF assms(1)] over(1) by simp
  have l: "mset (loop_errors env ?x pmts) \<subseteq># mset (elems (errs s))"
    using run_planned [OF assms(2)] start_planned(2) [OF assms(1)] over(2) by simp
  have "case resolve env ?x (fst entry) of
          Inl err \<Rightarrow> err \<in> set (elems (errs s))
        | Inr (ap, cli) \<Rightarrow> (cli, pmt_metricTypes (snd entry)) \<in> set (tasks s)"
    if entry: "entry \<in> set pmts" for entry
  proof (cases "resolve env ?x (fst entry)")
    case (Inl err)
    have "err \<in> set (loop_errors env ?x pmts)"
      using entry Inl by (rule loop_errors_member)
    then have "err \<in># mset (elems (errs s))"
      using l by (meson in_multiset_in_set mset_subset_eqD)
    then show ?thesis
      using Inl by simp
  next
    case (Inr r)
    obtain ap cli where r: "r = (ap, cli)"
      by (cases r)
    have "resolve env ?x (fst entry) = Inr (ap, cli)"
      using Inr r by simp
    with entry have "(cli, pmt_metricTypes (snd entry)) \<in> set (dispatched env ?x pmts)"
      by (rule dispatched_member)
    then have "(cli, pmt_metricTypes (snd entry)) \<in> set (tasks s)"
      using t by (metis set_mset_mset)
    then show ?thesis
      using Inr r by simp
  qed
  then show ?thesis
    using t l by blast
qed

lemma resolve_unfold:
  "resolve env x key =
     (case GetPluginPool env key x of
        None \<Rightarrow> Inl (''no available plugins for plugin type ('' @ key @ '')'')
      | Some pool \<Rightarrow>
          if Count env pool x = 0
          then Inl (''there is no availablePlugins in pool ('' @ key @ '')'')
          else
            (case SelectUsingStrategy env pool x of
               (_, Some err) \<Rightarrow> Inl err
             | (None, None) \<Rightarrow>
                 Inl (''no available plugin selected in pool '' @ Sprint_pool env pool x)
             | (Some ap, None) \<Rightarrow>
                 (case CollectorClient env ap x of
                    None \<Rightarrow> Inl ''unable to cast client to PluginCollectorClient''
                  | Some cli \<Rightarrow> Inr (ap, cli))))"
  by (simp add: resolve_def getPool_def getAvailablePlugin_def
        split: option.splits prod.splits)

lemma usable_resolve: "usable env x key \<longleftrightarrow> (\<exists>r. resolve env x key = Inr r)"
  unfolding resolve_unfold usable_def
  by (simp split: option.splits prod.splits)

lemma not_usable_resolve: "\<not> usable env x key \<longleftrightarrow> (\<exists>err. resolve env x key = Inl err)"
  unfolding usable_resolve by (cases "resolve env x key") simp_all

lemma length_dispatched:
  "length (dispatched env x pmts) = length (filter (\<lambda>entry. usable env x (fst entry)) pmts)"
proof (induction pmts)
  case Nil
  then show ?case by (simp add: dispatched_def)
next
  case (Cons entry pmts)
  have "dispatched env x (entry # pmts) = dispatched env x [entry] @ dispatched env x pmts"
    by (simp add: dispatched_def)
  moreover have "length (dispatched env x [entry]) = (if usable env x (fst entry) then 1 else 0)"
    unfolding usable_resolve
    by (cases "resolve env x (fst entry)") (auto simp: dispatched_def)
  ultimately show ?case
    using Cons.IH by simp
qed

lemma length_loop_errors:
  "length (loop_errors env x pmts) =
     length (filter (\<lambda>entry. \<not> usable env x (fst entry)) pmts)"
proof (induction pmts)
  case Nil
  then show ?case by (simp add: loop_errors_def)
next
  case (Cons entry pmts)
  have "loop_errors env x (entry # pmts) = loop_errors env x [entry] @ loop_errors env x pmts"
    by (simp add: loop_errors_def)
  moreover have "length (loop_errors env x [entry]) = (if usable env x (fst entry) then 0 else 1)"
    unfolding usable_resolve
    by (cases "resolve env x (fst entry)") (auto simp: loop_errors_def)
  ultimately show ?case
    using Cons.IH by simp
qed

text \<open>
  Claim C7. After grouping succeeded, take any state of any execution in which the
  loop is over. For every group of the map, whatever happened to the other groups:
  if its pool is absent, or empty, or the selection returns an error, or no
  instance, or the instance has no collector client, the error of that failure is
  in \<open>errs\<close>; and if the pool is there and not empty, the selection gives an
  instance and the instance has a collector client, there is a dispatched goroutine
  with this client and the metric types of the group. There are as many dispatched
  goroutines as groups that can be dispatched, and at least as many errors as
  groups that cannot.
\<close>

theorem groups_independent:
  assumes "groupMetricTypesByPlugin env (collab (backend p)) metricTypes = Inr pmts"
    and "run env (collab (backend p)) schedule (CollectMetrics_start env metricTypes p) = Some s"
    and "\<forall>pending. main s \<noteq> AtLoop pending"
  shows
    "(\<forall>entry \<in> set pmts.
        (GetPluginPool env (fst entry) (collab (backend p)) = None \<longrightarrow>
           (''no available plugins for plugin type ('' @ fst entry @ '')'')
             \<in> set (elems (errs s))) \<and>
        (\<forall>pool. GetPluginPool env (fst entry) (collab (backend p)) = Some pool \<longrightarrow>
           (Count env pool (collab (backend p)) = 0 \<longrightarrow>
              (''there is no availablePlugins in pool ('' @ fst entry @ '')'')
                \<in> set (elems (errs s))) \<and>
           (Count env pool (collab (backend p)) \<noteq> 0 \<longrightarrow>
              (\<forall>r err. SelectUsingStrategy env pool (collab (backend p)) = (r, Some err) \<longrightarrow>
                 err \<in> set (elems (errs s))) \<and>
              (SelectUsingStrategy env pool (collab (backend p)) = (None, None) \<longrightarrow>
                 (''no available plugin selected in pool '' @
                    Sprint_pool env pool (collab (backend p))) \<in> set (elems (errs s))) \<and>
              (\<forall>ap. SelectUsingStrategy env pool (collab (backend p)) = (Some ap, None) \<longrightarrow>
                 (CollectorClient env ap (collab (backend p)) = None \<longrightarrow>
                    ''unable to cast client to PluginCollectorClient'' \<in> set (elems (errs s))) \<and>
                 (\<forall>cli. CollectorClient env ap (collab (backend p)) = Some cli \<longrightarrow>
                    (cli, pmt_metricTypes (snd entry)) \<in> set (tasks s)))))) \<and>
     length (workers s) =
       length (filter (\<lambda>entry. usable env (collab (backend p)) (fst entry)) pmts) \<and>
     length (filter (\<lambda>entry. \<not> usable env (collab (backend p)) (fst entry)) pmts) \<le>
       len (errs s)"
proof (intro conjI ballI allI impI)
  let ?x = "collab (backend p)"
  note lo = loop_over [OF assms]
  have per: "case resolve env ?x (fst entry) of
               Inl err \<Rightarrow> err \<in> set (elems (errs s))
             | Inr (ap, cli) \<Rightarrow> (cli, pmt_metricTypes (snd entry)) \<in> set (tasks s)"
    if "entry \<in> set pmts" for entry
    using lo that by blast
  have failed: "err \<in> set (elems (errs s))"
    if "entry \<in> set pmts" and "resolve env ?x (fst entry) = Inl err" for entry err
    using per [OF that(1)] that(2) by simp
  {
    fix entry
    assume e: "entry \<in> set pmts"
    {
      assume "GetPluginPool env (fst entry) ?x = None"
      then have "resolve env ?x (fst entry) =
                   Inl (''no available plugins for plugin type ('' @ fst entry @ '')'')"
        by (simp add: resolve_unfold)
      with e show "(''no available plugins for plugin type ('' @ fst entry @ '')'')
                     \<in> set (elems (errs s))"
        by (rule failed)
    }
    fix pool
    assume pl: "GetPluginPool env (fst entry) ?x = Some pool"
    {
      assume "Count env pool ?x = 0"
      then have "resolve env ?x (fst entry) =
                   Inl (''there is no availablePlugins in pool ('' @ fst entry @ '')'')"
        using pl by (simp add: resolve_unfold)
      with e show "(''there is no availablePlugins in pool ('' @ fst entry @ '')'')
                     \<in> set (elems (errs s))"
        by (rule failed)
    }
    assume c: "Count env pool ?x \<noteq> 0"
    {
      fix r err
      assume "SelectUsingStrategy env pool ?x = (r, Some err)"
      then have "resolve env ?x (fst entry) = Inl err"
        using pl c by (cases r) (simp_all add: resolve_unfold)
      with e show "err \<in> set (elems (errs s))"
        by (rule failed)
    }
    {
      assume "SelectUsingStrategy env pool ?x = (None, None)"
      then have "resolve env ?x (fst entry) =
                   Inl (''no available plugin selected in pool '' @ Sprint_pool env pool ?x)"
        using pl c by (simp add: resolve_unfold)
      with e show "(''no available plugin selected in pool '' @ Sprint_pool env pool ?x)
                     \<in> set (elems (errs s))"
        by (rule failed)
    }
    fix ap
    assume sel: "SelectUsingStrategy env pool ?x = (Some ap, None)"
    {
      assume "CollectorClient env ap ?x = None"
      then have "resolve env ?x (fst entry) =
                   Inl ''unable to cast client to PluginCollectorClient''"
        using pl c sel by (simp add: resolve_unfold)
      with e show "''unable to cast client to PluginCollectorClient'' \<in> set (elems (errs s))"
        by (rule failed)
    }
    fix cli
    assume "CollectorClient env ap ?x = Some cli"
    then have "resolve env ?x (fst entry) = Inr (ap, cli)"
      using pl c sel by (simp add: resolve_unfold)
    then show "(cli, pmt_metricTypes (snd entry)) \<in> set (tasks s)"
      using per [OF e] by simp
  }
  have "length (tasks s) = length (dispatched env ?x pmts)"
    using lo by (metis size_mset)
  then show "length (workers s) =
       length (filter (\<lambda>entry. usable env ?x (fst entry)) pmts)"
    by (simp add: tasks_def length_dispatched)
  have "mset (loop_errors env ?x pmts) \<subseteq># mset (elems (errs s))"
    using lo by (rule conjunct2 [THEN conjunct1])
  then have "size (mset (loop_errors env ?x pmts)) \<le> size (mset (elems (errs s)))"
    by (rule size_mset_mono)
  then show "length (filter (\<lambda>entry. \<not> usable env ?x (fst entry)) pmts) \<le> len (errs s)"
    by (simp add: len_def length_loop_errors)
qed

lemma demo_grouping_six:
  "groupMetricTypesByPlugin demo
     (collab (backend (ctl True [plug ''cpu'' 1, plug ''mem'' 1, plug ''gpu'' 1, plug ''net'' 1,
        plug ''tty'' 1, plug ''pub'' 1])))
     [requested [''cpu'', ''temp''], requested [''mem'', ''free''], requested [''gpu'', ''x''],
      requested [''net'', ''rx''], requested [''tty'', ''in''], requested [''pub'', ''out'']] =
   Inr [(''cpu:1'', \<lparr>pmt_plugin = Some (plug ''cpu'' 1),
                      pmt_metricTypes = [requested [''cpu'', ''temp'']]\<rparr>),
        (''mem:1'', \<lparr>pmt_plugin = Some (plug ''mem'' 1),
                      pmt_metricTypes = [requested [''mem'', ''free'']]\<rparr>),
        (''gpu:1'', \<lparr>pmt_plugin = Some (plug ''gpu'' 1),
                      pmt_metricTypes = [requested [''gpu'', ''x'']]\<rparr>),
        (''net:1'', \<lparr>pmt_plugin = Some (plug ''net'' 1),
                      pmt_metricTypes = [requested [''net'', ''rx'']]\<rparr>),
        (''tty:1'', \<lparr>pmt_plugin = Some (plug ''tty'' 1),
                      pmt_metricTypes = [requested [''tty'', ''in'']]\<rparr>),
        (''pub:1'', \<lparr>pmt_plugin = Some (plug ''pub'' 1),
                      pmt_metricTypes = [requested [''pub'', ''out'']]\<rparr>)]"
  by code_simp

lemma demo_loop_over:
  "map_option (\<lambda>s. (main s, tasks s, errs s))
     (run demo
        (collab (backend (ctl True [plug ''cpu'' 1, plug ''mem'' 1, plug ''gpu'' 1,
           plug ''net'' 1, plug ''tty'' 1, plug ''pub'' 1])))
        [Main 2, Main 0, Main 1, Main 0, Main 1, Main 0, Main 0]
        (CollectMetrics_start demo
           [requested [''cpu'', ''temp''], requested [''mem'', ''free''], requested [''gpu'', ''x''],
            requested [''net'', ''rx''], requested [''tty'', ''in''], requested [''pub'', ''out'']]
           (ctl True [plug ''cpu'' 1, plug ''mem'' 1, plug ''gpu'' 1, plug ''net'' 1,
              plug ''tty'' 1, plug ''pub'' 1]))) =
   Some (AtWait, [(10, [requested [''cpu'', ''temp'']])],
         Some [''no available plugins for plugin type (gpu:1)'',
               ''no healthy instance'',
               ''there is no availablePlugins in pool (mem:1)'',
               ''unable to cast client to PluginCollectorClient'',
               ''no available plugin selected in pool &{}''])"
  by code_simp


theorem groups_independent_witness:
  "map_option (\<lambda>s. (main s, tasks s, errs s))
     (run demo
        (collab (backend (ctl True [plug ''cpu'' 1, plug ''mem'' 1, plug ''gpu'' 1,
           plug ''net'' 1, plug ''tty'' 1, plug ''pub'' 1])))
        [Main 2, Main 0, Main 1, Main 0, Main 1, Main 0, Main 0]
        (CollectMetrics_start demo
           [requested [''cpu'', ''temp''], requested [''mem'', ''free''], requested [''gpu'', ''x''],
            requested [''net'', ''rx''], requested [''tty'', ''in''], requested [''pub'', ''out'']]
           (ctl True [plug ''cpu'' 1, plug ''mem'' 1, plug ''gpu'' 1, plug ''net'' 1,
              plug ''tty'' 1, plug ''pub'' 1]))) =
   Some (AtWait, [(10, [requested [''cpu'', ''temp'']])],
         Some [''no available plugins for plugin type (gpu:1)'',
               ''no healthy instance'',
               ''there is no availablePlugins in pool (mem:1)'',
               ''unable to cast client to PluginCollectorClient'',
               ''no available plugin selected in pool &{}'']) \<and>
   GetPluginPool demo ''gpu:1'' [plug ''cpu'' 1, plug ''mem'' 1, plug ''gpu'' 1, plug ''net'' 1,
     plug ''tty'' 1, plug ''pub'' 1] = None \<and>
   Count demo 2 [plug ''cpu'' 1, plug ''mem'' 1, plug ''gpu'' 1, plug ''net'' 1,
     plug ''tty'' 1, plug ''pub'' 1] = 0 \<and>
   SelectUsingStrategy demo 4 [plug ''cpu'' 1, plug ''mem'' 1, plug ''gpu'' 1, plug ''net'' 1,
     plug ''tty'' 1, plug ''pub'' 1] = (None, Some ''no healthy instance'') \<and>
   SelectUsingStrategy demo 5 [plug ''cpu'' 1, plug ''mem'' 1, plug ''gpu'' 1, plug ''net'' 1,
     plug ''tty'' 1, plug ''pub'' 1] = (None, None) \<and>
   CollectorClient demo 60 [plug ''cpu'' 1, plug ''mem'' 1, plug ''gpu'' 1, plug ''net'' 1,
     plug ''tty'' 1, plug ''pub'' 1] = None"
proof -
  let ?tbl = "[plug ''cpu'' 1, plug ''mem'' 1, plug ''gpu'' 1, plug ''net'' 1, plug ''tty'' 1,
      plug ''pub'' 1]"
  let ?p = "ctl True ?tbl"
  let ?mts = "[requested [''cpu'', ''temp''], requested [''mem'', ''free''],
      requested [''gpu'', ''x''], requested [''net'', ''rx''], requested [''tty'', ''in''],
      requested [''pub'', ''out'']]"
  let ?sched = "[Main 2, Main 0, Main 1, Main 0, Main 1, Main 0, Main 0]"
  let ?gpu = "(''gpu:1'', \<lparr>pmt_plugin = Some (plug ''gpu'' 1),
                 pmt_metricTypes = [requested [''gpu'', ''x'']]\<rparr>)"
  let ?net = "(''net:1'', \<lparr>pmt_plugin = Some (plug ''net'' 1),
                 pmt_metricTypes = [requested [''net'', ''rx'']]\<rparr>)"
  let ?cpu = "(''cpu:1'', \<lparr>pmt_plugin = Some (plug ''cpu'' 1),
                 pmt_metricTypes = [requested [''cpu'', ''temp'']]\<rparr>)"
  obtain s where s: "run demo (collab (backend ?p)) ?sched (CollectMetrics_start demo ?mts ?p) = Some s"
    using demo_loop_over
    by (cases "run demo (collab (backend ?p)) ?sched (CollectMetrics_start demo ?mts ?p)")
       simp_all
  have f: "main s = AtWait" "tasks s = [(10, [requested [''cpu'', ''temp'']])]"
    using demo_loop_over s by simp_all
  then have over: "\<forall>pending. main s \<noteq> AtLoop pending"
    by simp
  have absent: "GetPluginPool demo ''gpu:1'' ?tbl = None"
    and empty: "Count demo 2 ?tbl = 0"
    and sel: "SelectUsingStrategy demo 4 ?tbl = (None, Some ''no healthy instance'')"
    and nosel: "SelectUsingStrategy demo 5 ?tbl = (None, None)"
    and cast: "CollectorClient demo 60 ?tbl = None"
    by (simp_all add: demo_def)
  note g = groups_independent [OF demo_grouping_six s over, THEN conjunct1, THEN bspec,
      of ?gpu, THEN conjunct1, THEN mp]
  have "''no available plugins for plugin type (gpu:1)'' \<in> set (elems (errs s))"
    using g absent by simp
  then show ?thesis
    using demo_loop_over absent empty sel nosel cast by simp
qed

subsection \<open>The shared result variable\<close>

lemma one_workerD:
  assumes "one_worker entry cli ms s"
  obtains w where "workers s = [w]" "w_cli w = cli" "w_mt w = pmt_metricTypes (snd entry)"
    "phase ms (w_pc w) (mcol s) (metrics s)"
proof (cases "workers s")
  case Nil
  then show ?thesis using assms by (simp add: one_worker_def)
next
  case (Cons w rest)
  then show ?thesis
    using assms that by (cases rest) (simp_all add: one_worker_def)
qed

lemma single_step_main:
  assumes st: "step_main env x i s = Some s'" and inv: "single entry cli ms s"
    and res: "resolve env x (fst entry) = Inr (ap, cli)"
  shows "single entry cli ms s'"
proof (cases "main s")
  case (AtLoop pending)
  show ?thesis
  proof (cases "pending = []")
    case True
    then have s': "s' = s\<lparr>main := AtWait, mcol := MReceive, ecol := EReceive\<rparr>"
      using st AtLoop by (simp add: step_main_def)
    have m: "mcol s = MNotStarted" and ow: "one_worker entry cli ms s" and e: "errs s = None"
      using inv AtLoop True by (simp_all add: single_def)
    from ow obtain w where w: "workers s = [w]" "w_cli w = cli"
      "w_mt w = pmt_metricTypes (snd entry)" "phase ms (w_pc w) (mcol s) (metrics s)"
      by (rule one_workerD)
    have "phase ms (w_pc w) MReceive (metrics s)"
      using w(4) m by (cases "w_pc w") simp_all
    then show ?thesis
      using w e unfolding s' by (simp add: single_def one_worker_def)
  next
    case False
    then have p: "pending = [entry]" and w: "workers s = []" and m: "metrics s = None"
      and c: "mcol s = MNotStarted" and e: "errs s = None"
      and ec: "ecol s = ENotStarted \<or> ecol s = EReceive"
      using inv AtLoop by (simp_all add: single_def)
    have i: "i = 0"
      using st AtLoop p by (simp add: step_main_def split: if_splits)
    have s': "s' = iteration env x entry (s\<lparr>main := AtLoop []\<rparr>)"
      using st AtLoop p i by (simp add: step_main_def)
    show ?thesis
      unfolding s' using res w m c e ec
      by (simp add: iteration_def single_def one_worker_def)
  qed
next
  case AtWait
  then have "s' = s\<lparr>main := (if len (errs s) > 0 then Returned None (errs s)
                                 else Returned (metrics s) (errs s))\<rparr>"
    using st by (simp add: step_main_def split: if_splits)
  then show ?thesis
    using inv AtWait by (simp add: single_def one_worker_def len_def split: list.splits)
next
  case (Returned rs es)
  then show ?thesis
    using st by (simp add: step_main_def)
qed

lemma single_step_worker:
  assumes st: "step_worker env i s = Some s'" and inv: "single entry cli ms s"
    and rem: "client_CollectMetrics env cli (pmt_metricTypes (snd entry)) = (ms, None)"
  shows "single entry cli ms s'"
proof -
  have i: "i < length (workers s)"
    using st by (simp add: step_worker_def split: if_splits)
  then have "workers s \<noteq> []"
    by auto
  then have ow: "one_worker entry cli ms s"
    using inv by (cases "main s") (auto simp: single_def)
  then obtain w where w: "workers s = [w]" "w_cli w = cli"
    "w_mt w = pmt_metricTypes (snd entry)" "phase ms (w_pc w) (mcol s) (metrics s)"
    by (rule one_workerD)
  have i0: "i = 0" "workers s ! i = w"
    using i w(1) by simp_all
  have frame: "single entry cli ms (s\<lparr>metrics := m', mcol := c', workers := [w\<lparr>w_pc := pc'\<rparr>]\<rparr>)"
    if "phase ms pc' c' m'" and "mcol s = MNotStarted \<longrightarrow> c' = MNotStarted" for m' c' pc'
    using inv that w(1,2,3)
    by (cases "main s") (auto simp: single_def one_worker_def)
  show ?thesis
  proof (cases "w_pc w")
    case WCall
    have s': "s' = s\<lparr>metrics := ms, mcol := mcol s, workers := [w\<lparr>w_pc := WBranch None\<rparr>]\<rparr>"
      using st i i0 w(1,2,3) WCall rem by (simp add: step_worker_def Let_def)
    have "phase ms (WBranch None) (mcol s) ms"
      using w(4) WCall by simp
    then show ?thesis
      unfolding s' by (intro frame) simp_all
  next
    case (WBranch err)
    then have err: "err = None" and m: "metrics s = ms"
      using w(4) by simp_all
    have s': "s' = s\<lparr>metrics := metrics s, mcol := mcol s,
                      workers := [w\<lparr>w_pc := WSendMetrics (metrics s)\<rparr>]\<rparr>"
      using st i i0 w(1) WBranch err by (simp add: step_worker_def Let_def)
    have "phase ms (WSendMetrics (metrics s)) (mcol s) (metrics s)"
      using w(4) WBranch m by simp
    then show ?thesis
      unfolding s' by (intro frame) simp_all
  next
    case (WSendError e)
    then show ?thesis using w(4) by simp
  next
    case (WSendMetrics v)
    then have v: "v = ms" and m: "metrics s = ms"
      using w(4) by simp_all
    have r: "mcol s = MReceive"
      and s': "s' = s\<lparr>metrics := metrics s, mcol := MAppend v, workers := [w\<lparr>w_pc := WExit\<rparr>]\<rparr>"
      using st i i0 w(1) WSendMetrics by (simp_all add: step_worker_def Let_def split: if_splits)
    have "phase ms WExit (MAppend v) (metrics s)"
      using v m by simp
    then show ?thesis
      unfolding s' using r by (intro frame) simp_all
  next
    case WExit
    then show ?thesis
      using st i i0 by (simp add: step_worker_def Let_def)
  qed
qed

lemma single_step_mcol:
  assumes st: "step_mcol s = Some s'" and inv: "single entry cli ms s"
  shows "single entry cli ms s'"
proof -
  have busy: "mcol s \<noteq> MNotStarted" "mcol s \<noteq> MReceive"
    using st by (auto simp: step_mcol_def)
  then have ow: "one_worker entry cli ms s"
    using inv by (cases "main s") (auto simp: single_def)
  then obtain w where w: "workers s = [w]" "w_cli w = cli"
    "w_mt w = pmt_metricTypes (snd entry)" "phase ms (w_pc w) (mcol s) (metrics s)"
    by (rule one_workerD)
  have pc: "w_pc w = WExit"
    using w(4) busy by (cases "w_pc w") simp_all
  have frame: "single entry cli ms (s\<lparr>metrics := m', wg := g', mcol := c'\<rparr>)"
    if "phase ms WExit c' m'" for m' c' g'
    using inv that w(1,2,3) pc busy
    by (cases "main s") (auto simp: single_def one_worker_def)
  show ?thesis
  proof (cases "mcol s")
    case (MAppend v)
    then have s': "s' = s\<lparr>metrics := metrics s, wg := wg s,
                      mcol := MStore (appendAll (metrics s) v)\<rparr>"
      using st by (simp add: step_mcol_def)
    have "phase ms WExit (MStore (appendAll (metrics s) v)) (metrics s)"
      using w(4) pc MAppend by simp
    then show ?thesis
      unfolding s' by (rule frame)
  next
    case (MStore v)
    then have s': "s' = s\<lparr>metrics := v, wg := wg s, mcol := MDone\<rparr>"
      using st by (simp add: step_mcol_def)
    have "phase ms WExit MDone v"
      using w(4) pc MStore by simp
    then show ?thesis
      unfolding s' by (rule frame)
  next
    case MDone
    then have s': "s' = s\<lparr>metrics := metrics s, wg := wg s - 1, mcol := MReceive\<rparr>"
      using st by (simp add: step_mcol_def)
    have "phase ms WExit MReceive (metrics s)"
      using w(4) pc MDone by simp
    then show ?thesis
      unfolding s' by (rule frame)
  qed (use busy in simp_all)
qed

lemma single_step_ecol:
  assumes "step_ecol s = Some s'" and "single entry cli ms s"
  shows "single entry cli ms s'"
  using assms by (auto simp: step_ecol_def single_def)

lemma single_step:
  assumes "step env x t s = Some s'" and "single entry cli ms s"
    and "resolve env x (fst entry) = Inr (ap, cli)"
    and "client_CollectMetrics env cli (pmt_metricTypes (snd entry)) = (ms, None)"
  shows "single entry cli ms s'"
  using assms
  by (cases t)
     (auto simp: step_def intro: single_step_main single_step_worker single_step_mcol single_step_ecol)

lemma single_run:
  assumes "run env x ts s = Some s'" and "single entry cli ms s"
    and "resolve env x (fst entry) = Inr (ap, cli)"
    and "client_CollectMetrics env cli (pmt_metricTypes (snd entry)) = (ms, None)"
  shows "single entry cli ms s'"
  using assms(1,2)
proof (induction ts arbitrary: s)
  case Nil
  then show ?case by simp
next
  case (Cons t ts)
  then obtain s1 where s1: "step env x t s = Some s1" "run env x ts s1 = Some s'"
    by (auto split: option.splits)
  have "single entry cli ms s1"
    using s1(1) Cons.prems(2) assms(3,4) by (rule single_step)
  with s1(2) show ?case
    by (rule Cons.IH)
qed

lemma start_single:
  assumes "groupMetricTypesByPlugin env (collab (backend p)) metricTypes = Inr [entry]"
  shows "single entry cli ms (CollectMetrics_start env metricTypes p)"
  using assms by (simp add: CollectMetrics_start_def single_def)

lemma single_returned:
  assumes "single entry cli ms s" and "consistent s" and "main s = Returned rs es"
  shows "rs = appendAll ms ms \<and> es = None"
proof -
  have ow: "one_worker entry cli ms s" and e: "errs s = None"
    using assms(1,3) by (simp_all add: single_def)
  then obtain w where w: "workers s = [w]" "phase ms (w_pc w) (mcol s) (metrics s)"
    by (auto elim: one_workerD)
  have "wg s = 0"
    using assms(2,3) by (rule returned_wg)
  with assms(2) have idle: "(\<forall>w \<in> set (workers s). w_pc w = WExit) \<and>
      mcol_busy (mcol s) = 0 \<and> ecol_busy (ecol s) = 0"
    by (rule idle_when_zero)
  then have "w_pc w = WExit" "mcol s = MReceive \<or> mcol s = MNotStarted"
    using w(1) by (auto simp: mcol_busy_def split: if_splits)
  then have "metrics s = appendAll ms ms"
    using w(2) by auto
  moreover have "es = errs s" "rs = (if len (errs s) > 0 then None else metrics s)"
    using assms(2,3) by (simp_all add: consistent_def started_def)
  ultimately show ?thesis
    using e by (simp add: len_def)
qed

text \<open>
  Claim C4 fails on the code. The goroutine of line 370 assigns the result of its
  remote call to \<open>metrics\<close>, the named result of \<open>CollectMetrics\<close>, before it sends
  it; the collecting goroutine then appends the value received to that same
  variable. So when the request makes one group, its instance resolves and the
  remote call returns the metrics \<open>ms\<close> without error, the call returns
  \<open>append(ms, ms...)\<close>, every metric twice, under every schedule.
\<close>

theorem single_group_returns_twice:
  assumes "groupMetricTypesByPlugin env (collab (backend p)) metricTypes = Inr [entry]"
    and "resolve env (collab (backend p)) (fst entry) = Inr (ap, cli)"
    and "client_CollectMetrics env cli (pmt_metricTypes (snd entry)) = (ms, None)"
    and "CollectMetrics env schedule metricTypes deadline p = Some ((rs, es), p')"
  shows "rs = appendAll ms ms \<and> es = None"
proof -
  let ?x = "collab (backend p)"
  obtain s where s: "run env ?x schedule (CollectMetrics_start env metricTypes p) = Some s"
    "main s = Returned rs es"
    using CollectMetrics_SomeD [OF assms(4)] by blast
  have "single entry cli ms (CollectMetrics_start env metricTypes p)"
    using assms(1) by (rule start_single)
  with s(1) have "single entry cli ms s"
    using assms(2,3) by (rule single_run)
  moreover have "consistent s"
    using s(1) start_inv by (rule run_inv)
  ultimately show ?thesis
    using s(2) by (rule single_returned)
qed

lemma demo_one_group:
  "map_option fst (CollectMetrics demo
     [Main 0, Main 0, Worker 0, Worker 0, Worker 0, MetricsCollector, MetricsCollector,
      MetricsCollector, Main 0]
     [requested [''cpu'', ''temp'']] 0 (ctl True [plug ''cpu'' 1])) =
   Some (Some [Metric [''cpu'', ''temp''] ''42'', Metric [''cpu'', ''temp''] ''42''], None)"
  by (simp add: eval_defs)

lemma demo_assignment:
  "map_option metrics (run demo [plug ''cpu'' 1] [Main 0, Worker 0]
     (CollectMetrics_start demo [requested [''cpu'', ''temp'']] (ctl True [plug ''cpu'' 1]))) =
   Some (Some [Metric [''cpu'', ''temp''] ''42''])"
  by (simp add: eval_defs)

theorem single_group_returns_twice_witness:
  "client_CollectMetrics demo 10 [requested [''cpu'', ''temp'']] =
     (Some [Metric [''cpu'', ''temp''] ''42''], None) \<and>
   map_option fst (CollectMetrics demo
     [Main 0, Main 0, Worker 0, Worker 0, Worker 0, MetricsCollector, MetricsCollector,
      MetricsCollector, Main 0]
     [requested [''cpu'', ''temp'']] 0 (ctl True [plug ''cpu'' 1])) =
   Some (Some [Metric [''cpu'', ''temp''] ''42'', Metric [''cpu'', ''temp''] ''42''], None)"
proof -
  let ?sched = "[Main 0, Main 0, Worker 0, Worker 0, Worker 0, MetricsCollector,
      MetricsCollector, MetricsCollector, Main 0]"
  let ?mts = "[requested [''cpu'', ''temp'']]"
  let ?p = "ctl True [plug ''cpu'' 1]"
  let ?entry = "(''cpu:1'', \<lparr>pmt_plugin = Some (plug ''cpu'' 1), pmt_metricTypes = ?mts\<rparr>)"
  have g: "groupMetricTypesByPlugin demo (collab (backend ?p)) ?mts = Inr [?entry]"
    by (simp add: eval_defs)
  have r: "resolve demo (collab (backend ?p)) (fst ?entry) = Inr (10, 10)"
    by (simp add: eval_defs)
  have c: "client_CollectMetrics demo 10 (pmt_metricTypes (snd ?entry)) =
             (Some [Metric [''cpu'', ''temp''] ''42''], None)"
    by (simp add: demo_def requested_def)
  obtain rs es p' where ret: "CollectMetrics demo ?sched ?mts 0 ?p = Some ((rs, es), p')"
    using demo_one_group by (cases "CollectMetrics demo ?sched ?mts 0 ?p") auto
  have "rs = appendAll (Some [Metric [''cpu'', ''temp''] ''42''])
               (Some [Metric [''cpu'', ''temp''] ''42'']) \<and> es = None"
    using g r c ret by (rule single_group_returns_twice)
  then have "rs = Some [Metric [''cpu'', ''temp''] ''42'', Metric [''cpu'', ''temp''] ''42''] \<and>
             es = None"
    by (simp add: appendAll_def len_def)
  then show ?thesis
    using ret c by simp
qed

end
